theory Spec2Isabelle
  imports Complex_Main
begin

section \<open>JavaScript numbers\<close>

text \<open>
  Every number of \<^verbatim>\<open>server.js\<close> is a JavaScript Number. The model keeps the
  special values of that type (\<open>Infinity\<close>, \<open>-Infinity\<close>, \<open>NaN\<close>) and the rules by
  which arithmetic produces and propagates them, and takes the finite values to be real
  numbers: a finite result is the exact one. In the arithmetic of the densities, the
  cumulative sums and the statistics, rounding to 53 bits, overflow of a finite
  computation to an infinity, underflow and the sign of zero are not modelled (the single
  zero \<open>Fin 0\<close> behaves as \<open>+0\<close>). The sample points are returned as \<open>math.range\<close>
  computed them, so that function is modelled on doubles, with the rounding of every
  addition.
\<close>

datatype num = Fin real | PInf | NInf | NaN

instantiation num :: "{plus,minus,uminus,times,inverse}"
begin

fun plus_num :: "num \<Rightarrow> num \<Rightarrow> num" where
  "plus_num NaN y = NaN"
| "plus_num x NaN = NaN"
| "plus_num PInf NInf = NaN"
| "plus_num NInf PInf = NaN"
| "plus_num PInf y = PInf"
| "plus_num x PInf = PInf"
| "plus_num NInf y = NInf"
| "plus_num x NInf = NInf"
| "plus_num (Fin a) (Fin b) = Fin (a + b)"

fun uminus_num :: "num \<Rightarrow> num" where
  "uminus_num (Fin a) = Fin (- a)"
| "uminus_num PInf = NInf"
| "uminus_num NInf = PInf"
| "uminus_num NaN = NaN"

definition minus_num :: "num \<Rightarrow> num \<Rightarrow> num" where
  "minus_num x y = x + (- y)"

fun times_num :: "num \<Rightarrow> num \<Rightarrow> num" where
  "times_num NaN y = NaN"
| "times_num x NaN = NaN"
| "times_num (Fin a) (Fin b) = Fin (a * b)"
| "times_num (Fin a) PInf = (if a = 0 then NaN else if 0 < a then PInf else NInf)"
| "times_num (Fin a) NInf = (if a = 0 then NaN else if 0 < a then NInf else PInf)"
| "times_num PInf (Fin b) = (if b = 0 then NaN else if 0 < b then PInf else NInf)"
| "times_num NInf (Fin b) = (if b = 0 then NaN else if 0 < b then NInf else PInf)"
| "times_num PInf PInf = PInf"
| "times_num PInf NInf = NInf"
| "times_num NInf PInf = NInf"
| "times_num NInf NInf = PInf"

fun divide_num :: "num \<Rightarrow> num \<Rightarrow> num" where
  "divide_num NaN y = NaN"
| "divide_num x NaN = NaN"
| "divide_num (Fin a) (Fin b) =
     (if b = 0 then (if a = 0 then NaN else if 0 < a then PInf else NInf)
      else Fin (a / b))"
| "divide_num (Fin a) PInf = Fin 0"
| "divide_num (Fin a) NInf = Fin 0"
| "divide_num PInf (Fin b) = (if 0 \<le> b then PInf else NInf)"
| "divide_num NInf (Fin b) = (if 0 \<le> b then NInf else PInf)"
| "divide_num PInf PInf = NaN"
| "divide_num PInf NInf = NaN"
| "divide_num NInf PInf = NaN"
| "divide_num NInf NInf = NaN"

definition inverse_num :: "num \<Rightarrow> num" where
  "inverse_num x = divide (Fin 1) x"

instance ..

end

text \<open>The comparisons \<open>>=\<close>, \<open><=\<close>, \<open>>\<close> and \<open>===\<close>: false as soon as an operand is \<open>NaN\<close>.\<close>

fun ge :: "num \<Rightarrow> num \<Rightarrow> bool" where
  "ge NaN y = False"
| "ge x NaN = False"
| "ge PInf y = True"
| "ge x NInf = True"
| "ge x PInf = False"
| "ge NInf y = False"
| "ge (Fin a) (Fin b) = (b \<le> a)"

definition le :: "num \<Rightarrow> num \<Rightarrow> bool" where
  "le x y = ge y x"

fun gt :: "num \<Rightarrow> num \<Rightarrow> bool" where
  "gt NaN y = False"
| "gt x NaN = False"
| "gt PInf PInf = False"
| "gt NInf NInf = False"
| "gt PInf y = True"
| "gt x NInf = True"
| "gt x PInf = False"
| "gt NInf y = False"
| "gt (Fin a) (Fin b) = (b < a)"

definition strict_eq :: "num \<Rightarrow> num \<Rightarrow> bool" where
  "strict_eq x y = (x \<noteq> NaN \<and> y \<noteq> NaN \<and> x = y)"

text \<open>\<open>Number.isInteger\<close>: a finite number with no fractional part.\<close>

fun isInteger :: "num \<Rightarrow> bool" where
  "isInteger (Fin a) = (of_int \<lfloor>a\<rfloor> = a)"
| "isInteger x = False"

fun isFinite :: "num \<Rightarrow> bool" where
  "isFinite (Fin a) = True"
| "isFinite x = False"

subsection \<open>The \<open>Math\<close> object\<close>

definition Math_PI :: num where
  "Math_PI = Fin pi"

fun Math_sqrt :: "num \<Rightarrow> num" where
  "Math_sqrt (Fin a) = (if a < 0 then NaN else Fin (sqrt a))"
| "Math_sqrt PInf = PInf"
| "Math_sqrt NInf = NaN"
| "Math_sqrt NaN = NaN"

fun Math_exp :: "num \<Rightarrow> num" where
  "Math_exp (Fin a) = Fin (exp a)"
| "Math_exp PInf = PInf"
| "Math_exp NInf = Fin 0"
| "Math_exp NaN = NaN"

fun Math_abs :: "num \<Rightarrow> num" where
  "Math_abs (Fin a) = Fin \<bar>a\<bar>"
| "Math_abs PInf = PInf"
| "Math_abs NInf = PInf"
| "Math_abs NaN = NaN"

text \<open>
  \<open>Math.pow\<close>, which is also the operator \<open>**\<close> (Number::exponentiate of ECMAScript):
  a zero exponent gives 1 whatever the base; then \<open>NaN\<close> propagates; a negative base
  has a power only for an integer exponent.
\<close>

definition odd_integer :: "real \<Rightarrow> bool" where
  "odd_integer e = (of_int \<lfloor>e\<rfloor> = e \<and> odd \<lfloor>e\<rfloor>)"

fun Math_pow :: "num \<Rightarrow> num \<Rightarrow> num" where
  "Math_pow x NaN = NaN"
| "Math_pow x (Fin e) =
     (if e = 0 then Fin 1
      else case x of
        NaN \<Rightarrow> NaN
      | PInf \<Rightarrow> (if 0 < e then PInf else Fin 0)
      | NInf \<Rightarrow> (if 0 < e then (if odd_integer e then NInf else PInf) else Fin 0)
      | Fin b \<Rightarrow>
          if b = 0 then (if 0 < e then Fin 0 else PInf)
          else if 0 < b then Fin (b powr e)
          else if of_int \<lfloor>e\<rfloor> = e
            then Fin ((if odd \<lfloor>e\<rfloor> then - 1 else 1) * (\<bar>b\<bar> powr e))
            else NaN)"
| "Math_pow x PInf =
     (case Math_abs x of
        Fin a \<Rightarrow> (if 1 < a then PInf else if a = 1 then NaN else Fin 0)
      | PInf \<Rightarrow> PInf
      | _ \<Rightarrow> NaN)"
| "Math_pow x NInf =
     (case Math_abs x of
        Fin a \<Rightarrow> (if 1 < a then Fin 0 else if a = 1 then NaN else PInf)
      | PInf \<Rightarrow> Fin 0
      | _ \<Rightarrow> NaN)"

section \<open>Library functions the server calls\<close>

datatype error = TypeError string | Error string

subsection \<open>mathjs\<close>

text \<open>The integer that a number passing \<open>Number.isInteger\<close> is.\<close>

fun int_of :: "num \<Rightarrow> int" where
  "int_of (Fin a) = \<lfloor>a\<rfloor>"
| "int_of x = 0"

text \<open>
  \<open>math.combinations(n, k)\<close> on numbers: the number of ways of picking \<open>k\<close> unordered
  outcomes from \<open>n\<close> possibilities. It takes non-negative integers with \<open>k <= n\<close> and
  throws a \<open>TypeError\<close> on anything else, checking \<open>n\<close>, then \<open>k\<close>, then \<open>k <= n\<close>.
\<close>

definition combinations :: "num \<Rightarrow> num \<Rightarrow> error + num" where
  "combinations n k =
     (if isInteger n \<and> ge n (Fin 0) then
        if isInteger k \<and> ge k (Fin 0) then
          if gt k n then Inl (TypeError ''k must be less than or equal to n'')
          else Inr (Fin (real (nat (int_of n) choose nat (int_of k))))
        else Inl (TypeError ''Positive integer value expected in function combinations'')
      else Inl (TypeError ''Positive integer value expected in function combinations''))"

text \<open>
  \<open>math.factorial(n)\<close> on the integers: it throws on a negative \<open>n\<close> and is \<open>n!\<close>
  otherwise. (For a number that is not an integer mathjs approximates the gamma function;
  the server asks for a factorial only after \<open>Number.isInteger\<close>, so the model's
  factorial takes the integer, read off the number by \<open>int_of\<close>.)
\<close>

definition factorial :: "int \<Rightarrow> error + num" where
  "factorial n =
     (if n < 0 then Inl (Error ''Value must be non-negative'')
      else Inr (Fin (fact (nat n))))"

text \<open>
  The numbers \<open>math.range\<close> works on are doubles. A finite double is an integer
  mantissa times a power of two; \<open>Double m e\<close> stands for \<open>m * 2^e\<close>. (The exponent is not
  bounded here: overflow and subnormal numbers do not occur between -5 and 20.)
\<close>

datatype double = Double int int

fun dval :: "double \<Rightarrow> real" where
  "dval (Double m e) = of_int m * 2 powi e"

text \<open>The number of binary digits of a natural number.\<close>

fun bits :: "nat \<Rightarrow> nat" where
  "bits n = (if n = 0 then 0 else Suc (bits (n div 2)))"

declare bits.simps [simp del]

text \<open>\<open>m / 2^k\<close> rounded to the nearest integer, a tie going to the even one.\<close>

definition round_nearest_even :: "int \<Rightarrow> nat \<Rightarrow> int" where
  "round_nearest_even m k =
     (let q = m div 2 ^ k; r = m mod 2 ^ k; h = 2 ^ (k - 1)
      in if r < h then q else if h < r then q + 1 else if even q then q else q + 1)"

text \<open>
  Rounding to a double: a mantissa of more than 53 binary digits loses the digits in
  excess, to nearest and ties to even. The sum of two doubles is their exact sum, rounded.
\<close>

fun round53 :: "double \<Rightarrow> double" where
  "round53 (Double m e) =
     (if bits (nat \<bar>m\<bar>) \<le> 53 then Double m e
      else Double (round_nearest_even m (bits (nat \<bar>m\<bar>) - 53))
                  (e + int (bits (nat \<bar>m\<bar>) - 53)))"

fun fl_add :: "double \<Rightarrow> double \<Rightarrow> double" where
  "fl_add (Double m1 e1) (Double m2 e2) =
     round53 (Double (m1 * 2 ^ nat (e1 - min e1 e2) + m2 * 2 ^ nat (e2 - min e1 e2))
                     (min e1 e2))"

text \<open>The double that the literal \<open>0.1\<close> denotes: the one nearest to one tenth.\<close>

definition literal_0_1 :: double where
  "literal_0_1 = Double 3602879701896397 (- 55)"

text \<open>
  The comparisons of mathjs on numbers, \<open>smaller\<close> and \<open>larger\<close>: two numbers that are
  \<open>nearlyEqual\<close> are neither smaller nor larger than one another. The tolerances are the
  defaults of the configuration, \<open>relTol = 1e-12\<close> and \<open>absTol = 1e-15\<close>. (The test is
  evaluated here without rounding: on the two ranges of the server the difference is
  either at least 0.1 or below \<open>4e-15\<close>, far from the tolerance of \<open>5e-12\<close>.)
\<close>

definition nearlyEqual :: "real \<Rightarrow> real \<Rightarrow> bool" where
  "nearlyEqual a b = (\<bar>a - b\<bar> \<le> max (1 / 10 ^ 12 * max \<bar>a\<bar> \<bar>b\<bar>) (1 / 10 ^ 15))"

definition smaller :: "real \<Rightarrow> real \<Rightarrow> bool" where
  "smaller a b = (a < b \<and> \<not> nearlyEqual a b)"

definition larger :: "real \<Rightarrow> real \<Rightarrow> bool" where
  "larger a b = (b < a \<and> \<not> nearlyEqual a b)"

text \<open>
  \<open>math.range(start, end, step)\<close>: the loop
  \<^verbatim>\<open>let x = start; while (ongoing(x, end)) { array.push(x); x = add(x, step) }\<close>
  where \<open>ongoing\<close> is \<open>smaller\<close> for a positive step and \<open>larger\<close> for a negative one.
  The loop need not end (a step too small to change \<open>x\<close> repeats for ever), so its result
  is optional: \<open>None\<close> is the loop that does not return. A zero step, which the server
  never passes, is given no iteration.
\<close>

partial_function (option) rangeEx ::
  "double \<Rightarrow> double \<Rightarrow> double \<Rightarrow> double list \<Rightarrow> double list option" where
  "rangeEx x stop step array =
     (if (0 < dval step \<and> smaller (dval x) (dval stop))
         \<or> (dval step < 0 \<and> larger (dval x) (dval stop))
      then rangeEx (fl_add x step) stop step (array @ [x])
      else Some array)"

text \<open>
  \<open>math.range(start, end, step).toArray()\<close> as the server uses it; both ranges it asks
  for return (lemmas \<open>range_discrete_doubles\<close> and \<open>range_continuous_doubles\<close>), and the
  branch of the loop that does not return is never taken.
\<close>

definition math_range :: "double \<Rightarrow> double \<Rightarrow> double \<Rightarrow> num list" where
  "math_range start stop step =
     (case rangeEx start stop step [] of
        Some array \<Rightarrow> map (\<lambda>x. Fin (dval x)) array
      | None \<Rightarrow> [])"

subsection \<open>\<open>parseFloat\<close>\<close>

text \<open>
  \<open>parseFloat\<close> on an ASCII string: leading white space is skipped, then the longest
  prefix that is a decimal literal (sign, \<open>Infinity\<close> or digits with an optional fraction
  and exponent) is read; with no such prefix the result is \<open>NaN\<close>. Whatever follows the
  literal is ignored.
\<close>

definition isDigit :: "char \<Rightarrow> bool" where
  "isDigit c = (48 \<le> (of_char c :: nat) \<and> (of_char c :: nat) \<le> 57)"

definition isWhiteSpace :: "char \<Rightarrow> bool" where
  "isWhiteSpace c = ((of_char c :: nat) = 32 \<or> (9 \<le> (of_char c :: nat) \<and> (of_char c :: nat) \<le> 13))"

definition digits_value :: "string \<Rightarrow> nat" where
  "digits_value ds = foldl (\<lambda>acc c. 10 * acc + ((of_char c :: nat) - 48)) 0 ds"

definition exponent_part :: "string \<Rightarrow> int" where
  "exponent_part s =
     (case s of
        [] \<Rightarrow> 0
      | c # r \<Rightarrow>
          if c = CHR ''e'' \<or> c = CHR ''E'' then
            (case r of
               [] \<Rightarrow> 0
             | d # r' \<Rightarrow>
                 if d = CHR ''-'' then - int (digits_value (takeWhile isDigit r'))
                 else if d = CHR ''+'' then int (digits_value (takeWhile isDigit r'))
                 else int (digits_value (takeWhile isDigit r)))
          else 0)"

definition unsigned_literal :: "string \<Rightarrow> num" where
  "unsigned_literal u =
     (if take 8 u = ''Infinity'' then PInf
      else
        let ip = takeWhile isDigit u;
            r1 = dropWhile isDigit u;
            fp = (case r1 of [] \<Rightarrow> [] | c # r \<Rightarrow> if c = CHR ''.'' then takeWhile isDigit r else []);
            r2 = (case r1 of [] \<Rightarrow> [] | c # r \<Rightarrow> if c = CHR ''.'' then dropWhile isDigit r else r1)
        in if ip = [] \<and> fp = [] then NaN
           else Fin (real (digits_value (ip @ fp)) / 10 ^ length fp * 10 powi exponent_part r2))"

definition parseFloat :: "string \<Rightarrow> num" where
  "parseFloat s =
     (case dropWhile isWhiteSpace s of
        [] \<Rightarrow> NaN
      | c # r \<Rightarrow>
          if c = CHR ''-'' then - unsigned_literal r
          else if c = CHR ''+'' then unsigned_literal r
          else unsigned_literal (c # r))"

subsection \<open>Objects and their keys\<close>

text \<open>
  \<open>req.query\<close> is the object the query-string parser has built: its own properties,
  with distinct keys, listed in the order the parser created them, which is the order of
  their first appearance in the URL; the values are strings.

  \<open>Object.keys\<close> does not enumerate in creation order: the keys that are array indices
  (canonical decimal numerals up to \<open>2^32 - 2\<close>) come first, in ascending numeric order, and
  the other keys follow in creation order.
\<close>

type_synonym query = "(string \<times> string) list"

definition isArrayIndex :: "string \<Rightarrow> bool" where
  "isArrayIndex s =
     (s \<noteq> [] \<and> list_all isDigit s \<and> (if length s = 1 then True else hd s \<noteq> CHR ''0'')
      \<and> digits_value s \<le> 4294967294)"

definition object_keys :: "query \<Rightarrow> string list" where
  "object_keys q =
     sort_key digits_value (filter isArrayIndex (map fst q))
     @ filter (\<lambda>k. \<not> isArrayIndex k) (map fst q)"

text \<open>\<open>parseFloat(req.query[key])\<close>; a missing property reads \<open>undefined\<close>, which parses to \<open>NaN\<close>.\<close>

definition parse_property :: "query \<Rightarrow> string \<Rightarrow> num" where
  "parse_property q key = (case map_of q key of Some v \<Rightarrow> parseFloat v | None \<Rightarrow> NaN)"

section \<open>The distribution table\<close>

datatype kind = Normal | Uniform | Exponential | Poisson | Rayleigh | Laplacian | Binomial

text \<open>
  A function called as \<open>f(...params)\<close> binds its formal parameters to the elements of
  \<open>params\<close> by position; a formal parameter with no argument takes its default, and
  arguments beyond the formal parameters are dropped. \<open>arg ps i d\<close> is the formal
  parameter at position \<open>i\<close> with default \<open>d\<close>.
\<close>

definition arg :: "num list \<Rightarrow> nat \<Rightarrow> num \<Rightarrow> num" where
  "arg ps i d = (if i < length ps then ps ! i else d)"

text \<open>\<open>distributions[k].pdf(x, ...params)\<close>\<close>

fun pdf :: "kind \<Rightarrow> num \<Rightarrow> num list \<Rightarrow> error + num" where
  "pdf Normal x ps =
     (let mu = arg ps 0 (Fin 0); sigma = arg ps 1 (Fin 1)
      in Inr ((Fin 1 / (sigma * Math_sqrt (Fin 2 * Math_PI)))
              * Math_exp (Fin (- (1 / 2)) * Math_pow ((x - mu) / sigma) (Fin 2))))"
| "pdf Uniform x ps =
     (let a = arg ps 0 (Fin 0); b = arg ps 1 (Fin 1)
      in Inr (if ge x a \<and> le x b then Fin 1 / (b - a) else Fin 0))"
| "pdf Exponential x ps =
     (let lambda = arg ps 0 (Fin 1)
      in Inr (if ge x (Fin 0) then lambda * Math_exp (- lambda * x) else Fin 0))"
| "pdf Poisson x ps =
     (let lambda = arg ps 0 (Fin 3)
      in if isInteger x \<and> ge x (Fin 0)
         then (case factorial (int_of x) of
                 Inl e \<Rightarrow> Inl e
               | Inr f \<Rightarrow> Inr ((Math_exp (- lambda) * Math_pow lambda x) / f))
         else Inr (Fin 0))"
| "pdf Rayleigh x ps =
     (let sigma = arg ps 0 (Fin 1)
      in Inr (if ge x (Fin 0)
              then (x / Math_pow sigma (Fin 2))
                   * Math_exp (- (Math_pow x (Fin 2)) / (Fin 2 * Math_pow sigma (Fin 2)))
              else Fin 0))"
| "pdf Laplacian x ps =
     (let mu = arg ps 0 (Fin 0); b = arg ps 1 (Fin 1)
      in Inr ((Fin 1 / (Fin 2 * b)) * Math_exp (- Math_abs (x - mu) / b)))"
| "pdf Binomial x ps =
     (let n = arg ps 0 (Fin 10); p = arg ps 1 (Fin (1 / 2))
      in case combinations n x of
           Inl e \<Rightarrow> Inl e
         | Inr c \<Rightarrow> Inr (c * Math_pow p x * Math_pow (Fin 1 - p) (n - x)))"

text \<open>\<open>distributions[k].mean(...params)\<close>\<close>

fun dist_mean :: "kind \<Rightarrow> num list \<Rightarrow> num" where
  "dist_mean Normal ps = (let mu = arg ps 0 (Fin 0) in mu)"
| "dist_mean Uniform ps = (let a = arg ps 0 (Fin 0); b = arg ps 1 (Fin 1) in (a + b) / Fin 2)"
| "dist_mean Exponential ps = (let lambda = arg ps 0 (Fin 1) in Fin 1 / lambda)"
| "dist_mean Poisson ps = (let lambda = arg ps 0 (Fin 3) in lambda)"
| "dist_mean Rayleigh ps = (let sigma = arg ps 0 (Fin 1) in sigma * Math_sqrt (Math_PI / Fin 2))"
| "dist_mean Laplacian ps = (let mu = arg ps 0 (Fin 0) in mu)"
| "dist_mean Binomial ps = (let n = arg ps 0 (Fin 10); p = arg ps 1 (Fin (1 / 2)) in n * p)"

text \<open>
  \<open>distributions[k].variance(...params)\<close>. The normal and the laplacian variance
  declare one formal parameter (\<open>sigma = 1\<close>, \<open>b = 1\<close>): it is the one at position 0.
\<close>

fun dist_variance :: "kind \<Rightarrow> num list \<Rightarrow> num" where
  "dist_variance Normal ps = (let sigma = arg ps 0 (Fin 1) in Math_pow sigma (Fin 2))"
| "dist_variance Uniform ps =
     (let a = arg ps 0 (Fin 0); b = arg ps 1 (Fin 1) in Math_pow (b - a) (Fin 2) / Fin 12)"
| "dist_variance Exponential ps = (let lambda = arg ps 0 (Fin 1) in Fin 1 / Math_pow lambda (Fin 2))"
| "dist_variance Poisson ps = (let lambda = arg ps 0 (Fin 3) in lambda)"
| "dist_variance Rayleigh ps =
     (let sigma = arg ps 0 (Fin 1) in (Fin 2 - Math_PI / Fin 2) * Math_pow sigma (Fin 2))"
| "dist_variance Laplacian ps = (let b = arg ps 0 (Fin 1) in Fin 2 * Math_pow b (Fin 2))"
| "dist_variance Binomial ps =
     (let n = arg ps 0 (Fin 10); p = arg ps 1 (Fin (1 / 2)) in n * p * (Fin 1 - p))"

text \<open>
  The display strings of a descriptor are returned as they are and never evaluated; the
  model carries them as the names of the strings.
\<close>

datatype expression = PdfExpression kind | CdfExpression kind

text \<open>
  \<open>distributions[type]\<close> is a property read on an ordinary object: an own property
  gives the descriptor, and a name that \<open>distributions\<close> does not own is looked up in
  \<open>Object.prototype\<close>, whose members are functions (or, for \<open>__proto__\<close>, the prototype
  object): truthy values without a \<open>pdf\<close>, \<open>mean\<close> or \<open>variance\<close> property. Any other
  name reads \<open>undefined\<close>.
\<close>

datatype property = Descriptor kind | Inherited | Undefined

definition object_prototype_names :: "string list" where
  "object_prototype_names =
     [''constructor'', ''__defineGetter__'', ''__defineSetter__'', ''hasOwnProperty'',
      ''__lookupGetter__'', ''__lookupSetter__'', ''isPrototypeOf'', ''propertyIsEnumerable'',
      ''toString'', ''valueOf'', ''__proto__'', ''toLocaleString'']"

definition distributions :: "string \<Rightarrow> property" where
  "distributions type =
     (if type = ''normal'' then Descriptor Normal
      else if type = ''uniform'' then Descriptor Uniform
      else if type = ''exponential'' then Descriptor Exponential
      else if type = ''poisson'' then Descriptor Poisson
      else if type = ''rayleigh'' then Descriptor Rayleigh
      else if type = ''laplacian'' then Descriptor Laplacian
      else if type = ''binomial'' then Descriptor Binomial
      else if type \<in> set object_prototype_names then Inherited
      else Undefined)"

section \<open>The server\<close>

text \<open>\<open>array.map(f)\<close> for a callback that may throw: the first exception ends the map.\<close>

fun array_map :: "('a \<Rightarrow> error + 'b) \<Rightarrow> 'a list \<Rightarrow> error + 'b list" where
  "array_map f [] = Inr []"
| "array_map f (x # xs) =
     (case f x of
        Inl e \<Rightarrow> Inl e
      | Inr y \<Rightarrow> (case array_map f xs of Inl e \<Rightarrow> Inl e | Inr ys \<Rightarrow> Inr (y # ys)))"

text \<open>
  \<open>computeCDF\<close>. The loop carries \<open>cumulativeSum\<close> and the array \<open>cdfValues\<close> it
  pushes to. For an empty input \<open>total\<close> is \<open>undefined\<close> and the final map has nothing
  to divide.
\<close>

fun cdf_loop :: "num list \<Rightarrow> num \<Rightarrow> num list \<Rightarrow> num list" where
  "cdf_loop [] cumulativeSum cdfValues = cdfValues"
| "cdf_loop (p # rest) cumulativeSum cdfValues =
     cdf_loop rest (cumulativeSum + p) (cdfValues @ [cumulativeSum + p])"

definition computeCDF :: "num list \<Rightarrow> num list" where
  "computeCDF pdfValues =
     (let cdfValues = cdf_loop pdfValues (Fin 0) []
      in if cdfValues = [] then []
         else let total = last cdfValues in map (\<lambda>val. val / total) cdfValues)"

record statistics =
  mean :: num
  variance :: num
  stdDev :: num

text \<open>
  \<open>computeStatistics\<close>. Reading \<open>mean\<close> of \<open>undefined\<close>, or calling the \<open>mean\<close> that an
  inherited member does not have, throws a \<open>TypeError\<close>.
\<close>

definition computeStatistics :: "string \<Rightarrow> num list \<Rightarrow> error + statistics" where
  "computeStatistics distributionType params =
     (case distributions distributionType of
        Descriptor k \<Rightarrow>
          (let m = dist_mean k params;
               v = dist_variance k params;
               sd = Math_sqrt v
           in Inr \<lparr>mean = m, variance = v, stdDev = sd\<rparr>)
      | Inherited \<Rightarrow> Inl (TypeError ''dist.mean is not a function'')
      | Undefined \<Rightarrow> Inl (TypeError ''Cannot read properties of undefined''))"

record payload =
  xValues :: "num list"
  pdfValues :: "num list"
  cdfValues :: "num list"
  stats :: statistics
  pdfExpression :: "expression option"
  cdfExpression :: "expression option"

text \<open>
  What the handler hands to \<open>res\<close>: \<open>res.status(400).json({error: ...})\<close> or
  \<open>res.json(payload)\<close>. An exception that escapes the handler is \<open>Inl\<close>; Express answers
  it with status 500.
\<close>

datatype response = Status400 string | Status200 payload

definition call_pdf :: "property \<Rightarrow> num \<Rightarrow> num list \<Rightarrow> error + num" where
  "call_pdf entry x params =
     (case entry of
        Descriptor k \<Rightarrow> pdf k x params
      | Inherited \<Rightarrow> Inl (TypeError ''distributions[type].pdf is not a function'')
      | Undefined \<Rightarrow> Inl (TypeError ''Cannot read properties of undefined''))"

definition expression_of :: "(kind \<Rightarrow> expression) \<Rightarrow> property \<Rightarrow> expression option" where
  "expression_of field entry = (case entry of Descriptor k \<Rightarrow> Some (field k) | _ \<Rightarrow> None)"

text \<open>\<open>const params = Object.keys(req.query).map((key) => parseFloat(req.query[key]))\<close>\<close>

definition request_params :: "query \<Rightarrow> num list" where
  "request_params q = map (parse_property q) (object_keys q)"

text \<open>The handler of \<open>GET /distribution/:type\<close>, given \<open>req.params.type\<close> and \<open>req.query\<close>.\<close>

definition handler :: "string \<Rightarrow> query \<Rightarrow> error + response" where
  "handler type q =
     (if distributions type = Undefined then Inr (Status400 ''Invalid distribution type'')
      else
        let params = request_params q;
            xs = (if type = ''poisson'' \<or> type = ''binomial''
                  then math_range (Double 0 0) (Double 20 0) (Double 1 0)
                  else math_range (Double (- 5) 0) (Double 5 0) literal_0_1)
        in case array_map (\<lambda>x. call_pdf (distributions type) x params) xs of
             Inl e \<Rightarrow> Inl e
           | Inr pdfs \<Rightarrow>
               (let cdfs = computeCDF pdfs
                in case computeStatistics type params of
                     Inl e \<Rightarrow> Inl e
                   | Inr st \<Rightarrow>
                       Inr (Status200
                         \<lparr>xValues = xs, pdfValues = pdfs, cdfValues = cdfs, stats = st,
                          pdfExpression = expression_of PdfExpression (distributions type),
                          cdfExpression = expression_of CdfExpression (distributions type)\<rparr>)))"

section \<open>What the specification says, in its own words\<close>

text \<open>
  The cumulative sum after sample \<open>k\<close>: the samples up to \<open>k\<close> added one at a time, in
  sample order, starting from 0. The total is the cumulative sum after the last sample.
\<close>

definition cumulative_sum :: "num list \<Rightarrow> nat \<Rightarrow> num" where
  "cumulative_sum ps k = foldl (+) (Fin 0) (take (Suc k) ps)"

definition total_density :: "num list \<Rightarrow> num" where
  "total_density ps = foldl (+) (Fin 0) ps"

text \<open>
  The derived CDF of the specification: every cumulative sum divided by the final one,
  and by nothing else.
\<close>

definition computeCDF_spec :: "num list \<Rightarrow> num list" where
  "computeCDF_spec ps =
     map (\<lambda>k. cumulative_sum ps k / cumulative_sum ps (length ps - 1)) [0..<length ps]"

text \<open>A sequence is non-decreasing when \<open><=\<close> holds from every element to every later one.\<close>

definition nondecreasing :: "num list \<Rightarrow> bool" where
  "nondecreasing cs = sorted_wrt le cs"

text \<open>The payload of a 200 answer, when the handler gave one.\<close>

definition replied :: "error + response \<Rightarrow> payload option" where
  "replied out = (case out of Inr (Status200 r) \<Rightarrow> Some r | _ \<Rightarrow> None)"

text \<open>A number that is \<open>NaN\<close> or passes \<open>>= 0\<close>.\<close>

definition nonneg_or_nan :: "num \<Rightarrow> bool" where
  "nonneg_or_nan v = (v = NaN \<or> ge v (Fin 0))"

text \<open>
  The entries of a query object in the order \<open>Object.keys\<close> enumerates them: the
  entries under array-index keys in ascending order of the index, then the other entries
  in the order of their creation.
\<close>

definition enumerated :: "query \<Rightarrow> query" where
  "enumerated q =
     sort_key (\<lambda>e. digits_value (fst e)) (filter (\<lambda>e. isArrayIndex (fst e)) q)
     @ filter (\<lambda>e. \<not> isArrayIndex (fst e)) q"

text \<open>
  The defaults that the formal parameters of a descriptor's \<open>pdf\<close> (after \<open>x\<close>), \<open>mean\<close>
  and \<open>variance\<close> declare, in the order of their declaration.
\<close>

fun pdf_defaults :: "kind \<Rightarrow> num list" where
  "pdf_defaults Normal = [Fin 0, Fin 1]"
| "pdf_defaults Uniform = [Fin 0, Fin 1]"
| "pdf_defaults Exponential = [Fin 1]"
| "pdf_defaults Poisson = [Fin 3]"
| "pdf_defaults Rayleigh = [Fin 1]"
| "pdf_defaults Laplacian = [Fin 0, Fin 1]"
| "pdf_defaults Binomial = [Fin 10, Fin (1 / 2)]"

fun mean_defaults :: "kind \<Rightarrow> num list" where
  "mean_defaults Normal = [Fin 0]"
| "mean_defaults Uniform = [Fin 0, Fin 1]"
| "mean_defaults Exponential = [Fin 1]"
| "mean_defaults Poisson = [Fin 3]"
| "mean_defaults Rayleigh = [Fin 1]"
| "mean_defaults Laplacian = [Fin 0]"
| "mean_defaults Binomial = [Fin 10, Fin (1 / 2)]"

fun variance_defaults :: "kind \<Rightarrow> num list" where
  "variance_defaults Normal = [Fin 1]"
| "variance_defaults Uniform = [Fin 0, Fin 1]"
| "variance_defaults Exponential = [Fin 1]"
| "variance_defaults Poisson = [Fin 3]"
| "variance_defaults Rayleigh = [Fin 1]"
| "variance_defaults Laplacian = [Fin 1]"
| "variance_defaults Binomial = [Fin 10, Fin (1 / 2)]"

text \<open>A finite number at a distance of at most \<open>eps\<close> from the real number \<open>c\<close>.\<close>

definition close_to :: "real \<Rightarrow> num \<Rightarrow> real \<Rightarrow> bool" where
  "close_to eps x c = (case x of Fin d \<Rightarrow> \<bar>d - c\<bar> \<le> eps | _ \<Rightarrow> False)"

text \<open>
  The 100 doubles that are reached from -5.0 by adding the double 0.1 again and again,
  each sum rounded, until 5 is reached within the tolerance: the first is -5.0, the second
  the double next to -4.9, the 51st is \<open>-37 * 2^-55\<close> where exact steps would reach 0, and
  the last lies just below 4.9.
\<close>

definition continuous_grid :: "double list" where
  "continuous_grid =
     [Double (- 5) 0, Double (- 5516909543528858) (- 50), Double (- 5404319552844596) (- 50),
      Double (- 5291729562160334) (- 50), Double (- 5179139571476072) (- 50),
      Double (- 5066549580791810) (- 50), Double (- 4953959590107548) (- 50),
      Double (- 4841369599423286) (- 50), Double (- 4728779608739024) (- 50),
      Double (- 4616189618054762) (- 50), Double (- 4503599627370500) (- 50),
      Double (- 8782019273372475) (- 51), Double (- 8556839292003950) (- 51),
      Double (- 8331659310635425) (- 51), Double (- 8106479329266900) (- 51),
      Double (- 7881299347898375) (- 51), Double (- 7656119366529850) (- 51),
      Double (- 7430939385161325) (- 51), Double (- 7205759403792800) (- 51),
      Double (- 6980579422424275) (- 51), Double (- 6755399441055750) (- 51),
      Double (- 6530219459687225) (- 51), Double (- 6305039478318700) (- 51),
      Double (- 6079859496950175) (- 51), Double (- 5854679515581650) (- 51),
      Double (- 5629499534213125) (- 51), Double (- 5404319552844600) (- 51),
      Double (- 5179139571476075) (- 51), Double (- 4953959590107550) (- 51),
      Double (- 4728779608739025) (- 51), Double (- 4503599627370500) (- 51),
      Double (- 8556839292003950) (- 52), Double (- 8106479329266900) (- 52),
      Double (- 7656119366529850) (- 52), Double (- 7205759403792800) (- 52),
      Double (- 6755399441055750) (- 52), Double (- 6305039478318700) (- 52),
      Double (- 5854679515581650) (- 52), Double (- 5404319552844600) (- 52),
      Double (- 4953959590107550) (- 52), Double (- 4503599627370500) (- 52),
      Double (- 8106479329266901) (- 53), Double (- 7205759403792802) (- 53),
      Double (- 6305039478318703) (- 53), Double (- 5404319552844604) (- 53),
      Double (- 4503599627370505) (- 53), Double (- 7205759403792812) (- 54),
      Double (- 5404319552844614) (- 54), Double (- 7205759403792831) (- 55),
      Double (- 3602879701896434) (- 55), Double (- 37) (- 55), Double 3602879701896360 (- 55),
      Double 7205759403792757 (- 55), Double 5404319552844577 (- 54),
      Double 7205759403792776 (- 54), Double 9007199254740974 (- 54),
      Double 5404319552844586 (- 53), Double 6305039478318685 (- 53),
      Double 7205759403792784 (- 53), Double 8106479329266883 (- 53),
      Double 9007199254740982 (- 53), Double 4953959590107541 (- 52),
      Double 5404319552844591 (- 52), Double 5854679515581641 (- 52),
      Double 6305039478318691 (- 52), Double 6755399441055741 (- 52),
      Double 7205759403792791 (- 52), Double 7656119366529841 (- 52),
      Double 8106479329266891 (- 52), Double 8556839292003941 (- 52),
      Double 9007199254740991 (- 52), Double 4728779608739020 (- 51),
      Double 4953959590107545 (- 51), Double 5179139571476070 (- 51),
      Double 5404319552844595 (- 51), Double 5629499534213120 (- 51),
      Double 5854679515581645 (- 51), Double 6079859496950170 (- 51),
      Double 6305039478318695 (- 51), Double 6530219459687220 (- 51),
      Double 6755399441055745 (- 51), Double 6980579422424270 (- 51),
      Double 7205759403792795 (- 51), Double 7430939385161320 (- 51),
      Double 7656119366529845 (- 51), Double 7881299347898370 (- 51),
      Double 8106479329266895 (- 51), Double 8331659310635420 (- 51),
      Double 8556839292003945 (- 51), Double 8782019273372470 (- 51),
      Double 4503599627370497 (- 50), Double 4616189618054759 (- 50),
      Double 4728779608739021 (- 50), Double 4841369599423283 (- 50),
      Double 4953959590107545 (- 50), Double 5066549580791807 (- 50),
      Double 5179139571476069 (- 50), Double 5291729562160331 (- 50),
      Double 5404319552844593 (- 50), Double 5516909543528855 (- 50)]"

section \<open>The sample points\<close>

lemma bits_numeral [simp]:
  "bits 0 = 0"
  "bits (Suc 0) = Suc 0"
  "bits (numeral n) = Suc (bits (numeral n div 2))"
  by (simp_all add: bits.simps)

lemma rangeEx_up:
  "0 < dval step \<Longrightarrow> smaller (dval x) (dval stop)
   \<Longrightarrow> rangeEx x stop step array = rangeEx (fl_add x step) stop step (array @ [x])"
  by (subst rangeEx.simps) simp

lemma rangeEx_up_stop:
  "0 < dval step \<Longrightarrow> \<not> smaller (dval x) (dval stop)
   \<Longrightarrow> rangeEx x stop step array = Some array"
  by (subst rangeEx.simps) simp

lemma range_discrete_doubles:
  "rangeEx (Double 0 0) (Double 20 0) (Double 1 0) []
   = Some (map (\<lambda>i. Double i 0)
       [0, 1, 2, 3, 4, 5, 6, 7, 8, 9, 10, 11, 12, 13, 14, 15, 16, 17, 18, 19])"
  by (simp add: rangeEx_up rangeEx_up_stop smaller_def nearlyEqual_def)

lemma range_continuous_doubles:
  "rangeEx (Double (- 5) 0) (Double 5 0) literal_0_1 [] = Some continuous_grid"
  unfolding continuous_grid_def
  by (simp add: rangeEx_up rangeEx_up_stop smaller_def nearlyEqual_def literal_0_1_def
      round_nearest_even_def)

lemma range_discrete:
  "math_range (Double 0 0) (Double 20 0) (Double 1 0) = map (\<lambda>i. Fin (real i)) [0..<20]"
  by (simp add: math_range_def range_discrete_doubles upt_rec)

lemma range_continuous:
  "math_range (Double (- 5) 0) (Double 5 0) literal_0_1
   = map (\<lambda>x. Fin (dval x)) continuous_grid"
  by (simp add: math_range_def range_continuous_doubles)

lemma continuous_grid_Cons: "continuous_grid = Double (- 5) 0 # tl continuous_grid"
  by (simp add: continuous_grid_def)

lemma range_continuous_Cons:
  "math_range (Double (- 5) 0) (Double 5 0) literal_0_1
   = Fin (- 5) # map (\<lambda>x. Fin (dval x)) (tl continuous_grid)"
proof -
  have "map (\<lambda>x. Fin (dval x)) continuous_grid
      = map (\<lambda>x. Fin (dval x)) (Double (- 5) 0 # tl continuous_grid)"
    using continuous_grid_Cons by simp
  then show ?thesis
    by (simp add: range_continuous)
qed

lemma continuous_grid_length: "length continuous_grid = 100"
  by (simp add: continuous_grid_def)

lemma continuous_grid_close:
  "list_all (\<lambda>(i, x). close_to (4 / 10 ^ 15) x (- 5 + real i / 10))
     (zip [0..<100] (map (\<lambda>x. Fin (dval x)) continuous_grid))"
  unfolding continuous_grid_def by (simp add: close_to_def upt_rec)

lemma continuous_grid_hd: "hd (map (\<lambda>x. Fin (dval x)) continuous_grid) = Fin (- 5)"
  by (subst continuous_grid_Cons) simp

lemma continuous_grid_50:
  "take 1 (drop 50 (map (\<lambda>x. Fin (dval x)) continuous_grid))
   = [Fin (- (37 / 36028797018963968))]"
  by (simp add: continuous_grid_def)

section \<open>The derived CDF\<close>

lemma cdf_loop_eq:
  "cdf_loop ps s acc = acc @ map (\<lambda>k. foldl (+) s (take (Suc k) ps)) [0..<length ps]"
proof (induction ps arbitrary: s acc)
  case Nil
  show ?case by simp
next
  case (Cons p rest)
  have "cdf_loop (p # rest) s acc = cdf_loop rest (s + p) (acc @ [s + p])"
    by simp
  also have "\<dots> = (acc @ [s + p]) @ map (\<lambda>k. foldl (+) (s + p) (take (Suc k) rest)) [0..<length rest]"
    by (rule Cons.IH)
  also have "\<dots> = acc @ map (\<lambda>k. foldl (+) s (take (Suc k) (p # rest))) [0..<Suc (length rest)]"
    by (simp only: map_upt_Suc) simp
  finally show ?case by simp
qed

lemma computeCDF_eq:
  "computeCDF ps = map (\<lambda>k. cumulative_sum ps k / total_density ps) [0..<length ps]"
proof (cases "ps = []")
  case True
  then show ?thesis by (simp add: computeCDF_def)
next
  case False
  then have len: "0 < length ps" by simp
  let ?cs = "map (\<lambda>k. foldl (+) (Fin 0) (take (Suc k) ps)) [0..<length ps]"
  have cs: "cdf_loop ps (Fin 0) [] = ?cs"
    by (simp add: cdf_loop_eq)
  have ne: "?cs \<noteq> []"
    using False by simp
  have "last ?cs = foldl (+) (Fin 0) (take (Suc (length ps - 1)) ps)"
    using len by (simp add: last_map del: upt_Suc)
  then have "last ?cs = total_density ps"
    using len by (simp add: total_density_def)
  then show ?thesis
    using ne unfolding computeCDF_def cs Let_def cumulative_sum_def
    by (simp del: upt_Suc)
qed

text \<open>
  Claim C5. For every sequence of sampled densities, \<open>computeCDF\<close> returns exactly the
  running cumulative sums, taken in sample order, each divided by the final cumulative
  sum: the only normalisation is by the total, and the sampling step never enters.
\<close>

theorem C5_computeCDF_is_normalised_running_sum:
  "computeCDF ps = computeCDF_spec ps"
proof (cases "ps = []")
  case True
  then show ?thesis
    by (simp add: computeCDF_def computeCDF_spec_def)
next
  case False
  then have "Suc (length ps - 1) = length ps"
    by (cases ps) simp_all
  then have "cumulative_sum ps (length ps - 1) = total_density ps"
    by (simp add: cumulative_sum_def total_density_def)
  then show ?thesis
    by (simp add: computeCDF_eq computeCDF_spec_def del: upt_Suc)
qed

section \<open>Statistics\<close>

text \<open>
  Claim C2. The descriptor's mean and variance, called as \<open>mean(...params)\<close> and
  \<open>variance(...params)\<close>, should be the closed forms of the family; for the normal family the
  variance should be the square of \<open>\<sigma>\<close>, the second parameter. The normal variance
  function binds its only formal parameter to the first element of the list, which is
  \<open>\<mu>\<close>: with \<open>\<mu> = 2\<close> and \<open>\<sigma> = 3\<close> the variance returned is 4, not 9.
\<close>

theorem C2_normal_variance_is_square_of_first_parameter:
  "computeStatistics ''normal'' [Fin 2, Fin 3]
     = Inr \<lparr>mean = Fin 2, variance = Fin 4, stdDev = Fin 2\<rparr>"
  by (simp add: computeStatistics_def distributions_def arg_def)

section \<open>Unknown kinds\<close>

lemma distributions_constructor: "distributions ''constructor'' = Inherited"
  by (simp add: distributions_def object_prototype_names_def)

text \<open>
  Claim C3. A kind outside the seven registered names should be answered with status 400
  and no computation. The name \<open>constructor\<close> is not registered, yet the test
  \<open>!distributions[type]\<close> lets it pass, because the table inherits a member of that name;
  the handler goes on, calls the \<open>pdf\<close> that member does not have at the first sample
  point, and ends with a \<open>TypeError\<close> instead of the 400 answer.
\<close>

theorem C3_inherited_name_is_not_rejected:
  "handler ''constructor'' q = Inl (TypeError ''distributions[type].pdf is not a function'')"
  by (simp add: handler_def distributions_constructor range_continuous_Cons call_pdf_def
      del: upt_Suc)

section \<open>Exceptions\<close>

lemma array_map_total:
  "(\<And>x. x \<in> set xs \<Longrightarrow> \<exists>y. f x = Inr y) \<Longrightarrow> \<exists>ys. array_map f xs = Inr ys"
proof (induction xs)
  case Nil
  show ?case by simp
next
  case (Cons x xs)
  from Cons.prems obtain y where y: "f x = Inr y"
    by auto
  from Cons obtain ys where "array_map f xs = Inr ys"
    by auto
  with y show ?case by simp
qed

lemma array_map_Inr:
  "array_map f xs = Inr ys \<Longrightarrow> map f xs = map Inr ys"
proof (induction xs arbitrary: ys)
  case Nil
  then show ?case by simp
next
  case (Cons x xs)
  then show ?case
    by (auto split: sum.splits)
qed

lemma array_map_length: "array_map f xs = Inr ys \<Longrightarrow> length ys = length xs"
  using array_map_Inr[of f xs ys] map_eq_imp_length_eq by fastforce

lemma array_map_throws:
  assumes "\<And>y. y \<in> set pre \<Longrightarrow> \<exists>v. f y = Inr v" and "f x = Inl e"
  shows "array_map f (pre @ x # post) = Inl e"
  using assms
proof (induction pre)
  case Nil
  then show ?case by simp
next
  case (Cons y pre)
  from Cons.prems(1)[of y] obtain v where "f y = Inr v"
    by auto
  moreover have "array_map f (pre @ x # post) = Inl e"
    using Cons by simp
  ultimately show ?case by simp
qed

lemma factorial_nonneg: "0 \<le> n \<Longrightarrow> factorial n = Inr (Fin (fact (nat n)))"
  by (simp add: factorial_def)

lemma guard_int_of: "isInteger x \<and> ge x (Fin 0) \<Longrightarrow> 0 \<le> int_of x"
  by (cases x) simp_all

lemma pdf_poisson_total: "\<exists>v. pdf Poisson x ps = Inr v"
  by (cases "isInteger x \<and> ge x (Fin 0)") (simp_all add: factorial_nonneg guard_int_of Let_def)

lemma pdf_poisson_guard:
  "\<not> (isInteger x \<and> ge x (Fin 0)) \<Longrightarrow> pdf Poisson x ps = Inr (Fin 0)"
  by (auto simp: Let_def)

lemma combinations_guard:
  "\<not> (isInteger k \<and> ge k (Fin 0)) \<Longrightarrow> \<exists>e. combinations n k = Inl e"
  by (auto simp: combinations_def)

lemma pdf_binomial_unguarded:
  "\<not> (isInteger x \<and> ge x (Fin 0)) \<Longrightarrow> \<exists>e. pdf Binomial x ps = Inl e"
  using combinations_guard[of x "arg ps 0 (Fin 10)"] by (auto simp: Let_def)

text \<open>
  Claim C10. The poisson density is total: for every \<open>x\<close> and every parameter list it
  returns a number and never throws, because the factorial is evaluated only behind the
  guard \<open>Number.isInteger(x) && x >= 0\<close>, and outside the guard the density is 0. The
  binomial density has no such guard before its combinatorial term: on every \<open>x\<close> the
  guard would stop, it throws.
\<close>

theorem C10_poisson_density_is_total:
  "(\<exists>v. pdf Poisson x ps = Inr v)
   \<and> (\<not> (isInteger x \<and> ge x (Fin 0))
        \<longrightarrow> pdf Poisson x ps = Inr (Fin 0) \<and> (\<exists>e. pdf Binomial x ps = Inl e))"
  using pdf_poisson_total[of x ps] pdf_poisson_guard[of x ps] pdf_binomial_unguarded[of x ps]
  by blast

theorem C10_witness:
  "\<not> (isInteger (Fin (1 / 2)) \<and> ge (Fin (1 / 2)) (Fin 0))
   \<and> pdf Poisson (Fin (1 / 2)) [] = Inr (Fin 0)
   \<and> pdf Binomial (Fin (1 / 2)) []
       = Inl (TypeError ''Positive integer value expected in function combinations'')
   \<and> pdf Poisson (Fin 2) [] = Inr (Fin (exp (- 3) * 9 / 2))"
proof -
  have g: "\<not> (isInteger (Fin (1 / 2)) \<and> ge (Fin (1 / 2)) (Fin 0))"
    by simp
  have "pdf Poisson (Fin (1 / 2)) [] = Inr (Fin 0)"
    using C10_poisson_density_is_total[of "Fin (1 / 2)" "[]"] g by blast
  moreover have "pdf Binomial (Fin (1 / 2)) []
       = Inl (TypeError ''Positive integer value expected in function combinations'')"
    by (simp add: combinations_def arg_def)
  moreover have "pdf Poisson (Fin 2) [] = Inr (Fin (exp (- 3) * 9 / 2))"
    by (simp add: factorial_def arg_def fact_numeral)
  ultimately show ?thesis
    using g by blast
qed

lemma range_discrete_list:
  "math_range (Double 0 0) (Double 20 0) (Double 1 0) =
     [Fin 0, Fin 1, Fin 2, Fin 3, Fin 4, Fin 5, Fin 6, Fin 7, Fin 8, Fin 9, Fin 10, Fin 11,
      Fin 12, Fin 13, Fin 14, Fin 15, Fin 16, Fin 17, Fin 18, Fin 19]"
  by (simp add: range_discrete upt_rec)

lemma distributions_binomial: "distributions ''binomial'' = Descriptor Binomial"
  by (simp add: distributions_def)

lemma pdf_binomial_default_in_range:
  assumes "k \<le> 10"
  shows "\<exists>v. pdf Binomial (Fin (real k)) [] = Inr v"
proof -
  have "combinations (Fin 10) (Fin (real k)) = Inr (Fin (real (10 choose k)))"
    using assms by (simp add: combinations_def)
  then show ?thesis
    by (simp add: arg_def Let_def)
qed

lemma pdf_binomial_default_11:
  "pdf Binomial (Fin 11) [] = Inl (TypeError ''k must be less than or equal to n'')"
  by (simp add: combinations_def arg_def Let_def)

text \<open>
  Claim C1. For every registered kind and every parameter list the evaluation should run
  to completion and return a result, numeric edge cases being ordinary arithmetic. The
  request for the binomial kind with no parameters at all does not: the samples run over
  0..19 while \<open>n\<close> defaults to 10, and at \<open>x = 11\<close> the combinatorial term throws, which
  ends the handler with a \<open>TypeError\<close> and no answer of its own.
\<close>

theorem C1_default_binomial_request_throws:
  "handler ''binomial'' [] = Inl (TypeError ''k must be less than or equal to n'')"
proof -
  let ?pre = "map (\<lambda>i. Fin (real i)) [0..<11]"
  let ?post = "map (\<lambda>i. Fin (real i)) [12..<20]"
  have split: "math_range (Double 0 0) (Double 20 0) (Double 1 0) = ?pre @ Fin 11 # ?post"
    by (simp add: range_discrete_list upt_rec)
  have pre: "\<exists>v. pdf Binomial y [] = Inr v" if "y \<in> set ?pre" for y
  proof -
    from that obtain k where "y = Fin (real k)" and "k \<le> 10"
      by auto
    then show ?thesis
      using pdf_binomial_default_in_range by simp
  qed
  have "array_map (\<lambda>x. pdf Binomial x []) (?pre @ Fin 11 # ?post)
      = Inl (TypeError ''k must be less than or equal to n'')"
    using pre pdf_binomial_default_11 by (rule array_map_throws)
  then show ?thesis
    unfolding handler_def split
    by (simp add: distributions_binomial request_params_def object_keys_def call_pdf_def
        del: upt_Suc)
qed

section \<open>Answers of the handler\<close>

lemma pdf_total_unless_binomial: "k \<noteq> Binomial \<Longrightarrow> \<exists>v. pdf k x ps = Inr v"
  using pdf_poisson_total[of x ps] by (cases k) (simp_all add: Let_def)

lemma handler_replies:
  assumes "distributions type = Descriptor k" and "k \<noteq> Binomial"
  shows "\<exists>r. handler type q = Inr (Status200 r)"
proof -
  let ?xs = "if type = ''poisson'' \<or> type = ''binomial''
             then math_range (Double 0 0) (Double 20 0) (Double 1 0) else math_range (Double (- 5) 0) (Double 5 0) literal_0_1"
  have "\<exists>ys. array_map (\<lambda>x. call_pdf (distributions type) x (request_params q)) ?xs = Inr ys"
    using assms pdf_total_unless_binomial
    by (intro array_map_total) (simp add: call_pdf_def)
  then obtain ys where
    "array_map (\<lambda>x. call_pdf (distributions type) x (request_params q)) ?xs = Inr ys"
    by blast
  then show ?thesis
    using assms by (simp add: handler_def computeStatistics_def Let_def)
qed

lemma handler_xValues:
  assumes "handler type q = Inr (Status200 r)"
  shows "xValues r = (if type = ''poisson'' \<or> type = ''binomial''
                      then math_range (Double 0 0) (Double 20 0) (Double 1 0) else math_range (Double (- 5) 0) (Double 5 0) literal_0_1)"
  using assms
  by (auto simp: handler_def Let_def split: if_splits sum.splits)

text \<open>
  Claim C6, as amended. The sample points of an answer depend on the kind only, whatever
  the parameters. The poisson and the binomial kind sample exactly the 20 integers 0..19.
  Every other kind samples the same 100 points: the doubles that \<open>math.range(-5, 5, 0.1)\<close>
  reaches from -5.0 by repeated addition of 0.1. The first is exactly -5.0 and point \<open>i\<close>
  lies within \<open>4e-15\<close> of \<open>-5 + 0.1 * i\<close>, without being that number in general.
\<close>

theorem C6_sample_points_depend_on_kind_only:
  assumes "handler type q = Inr (Status200 r)"
  shows "xValues r =
     (if type = ''poisson'' \<or> type = ''binomial''
      then map (\<lambda>i. Fin (real i)) [0..<20]
      else map (\<lambda>x. Fin (dval x)) continuous_grid)
   \<and> (if type = ''poisson'' \<or> type = ''binomial''
      then length (xValues r) = 20
      else length (xValues r) = 100 \<and> hd (xValues r) = Fin (- 5)
           \<and> list_all (\<lambda>(i, x). close_to (4 / 10 ^ 15) x (- 5 + real i / 10))
                (zip [0..<100] (xValues r)))"
proof -
  have x: "xValues r =
     (if type = ''poisson'' \<or> type = ''binomial''
      then map (\<lambda>i. Fin (real i)) [0..<20]
      else map (\<lambda>x. Fin (dval x)) continuous_grid)"
    using handler_xValues[OF assms] by (simp only: range_discrete range_continuous)
  show ?thesis
    unfolding x using continuous_grid_close
    by (simp add: continuous_grid_length continuous_grid_hd del: upt_Suc)
qed

lemma distributions_poisson: "distributions ''poisson'' = Descriptor Poisson"
  by (simp add: distributions_def)

lemma distributions_normal: "distributions ''normal'' = Descriptor Normal"
  by (simp add: distributions_def)

theorem C6_witness:
  "(\<exists>r. handler ''poisson'' [(''lambda'', ''4'')] = Inr (Status200 r)
        \<and> xValues r = map (\<lambda>i. Fin (real i)) [0..<20] \<and> length (xValues r) = 20)
   \<and> (\<exists>r. handler ''normal'' [(''mu'', ''1''), (''sigma'', ''2'')] = Inr (Status200 r)
        \<and> xValues r = map (\<lambda>x. Fin (dval x)) continuous_grid
        \<and> length (xValues r) = 100 \<and> hd (xValues r) = Fin (- 5))"
proof -
  obtain r1 where r1: "handler ''poisson'' [(''lambda'', ''4'')] = Inr (Status200 r1)"
    using handler_replies[OF distributions_poisson] by blast
  obtain r2 where r2: "handler ''normal'' [(''mu'', ''1''), (''sigma'', ''2'')] = Inr (Status200 r2)"
    using handler_replies[OF distributions_normal] by blast
  have "xValues r1 = map (\<lambda>i. Fin (real i)) [0..<20] \<and> length (xValues r1) = 20"
    using C6_sample_points_depend_on_kind_only[OF r1] by simp
  moreover have "xValues r2 = map (\<lambda>x. Fin (dval x)) continuous_grid
      \<and> length (xValues r2) = 100 \<and> hd (xValues r2) = Fin (- 5)"
    using C6_sample_points_depend_on_kind_only[OF r2]
    by (simp add: continuous_grid_length continuous_grid_hd)
  ultimately show ?thesis
    using r1 r2 by blast
qed

text \<open>
  Claim C6 as stated puts the points of the other kinds at exactly \<open>-5 + 0.1 * i\<close>. The
  51st point of a request for the normal kind, where that would be 0, is \<open>-37 * 2^-55\<close>
  (about \<open>-1.03e-15\<close>): the rounding of fifty additions has accumulated.
\<close>

theorem C6_accumulated_steps_miss_zero:
  "map_option (take 1 \<circ> drop 50 \<circ> xValues) (replied (handler ''normal'' []))
     = Some [Fin (- (37 / 36028797018963968))]
   \<and> Fin (- (37 / 36028797018963968)) \<noteq> Fin (- 5 + 50 / 10)"
proof -
  obtain r where r: "handler ''normal'' [] = Inr (Status200 r)"
    using handler_replies[OF distributions_normal] by blast
  have "xValues r = map (\<lambda>x. Fin (dval x)) continuous_grid"
    using handler_xValues[OF r] by (simp add: range_continuous)
  then have "take 1 (drop 50 (xValues r)) = [Fin (- (37 / 36028797018963968))]"
    by (simp only: continuous_grid_50)
  then show ?thesis
    unfolding r by (simp add: replied_def)
qed

section \<open>The sign of the variance\<close>

lemma square_nonneg_or_nan: "nonneg_or_nan (Math_pow x (Fin 2))"
  by (cases x) (simp_all add: nonneg_or_nan_def odd_integer_def)

lemma sqrt_of_nonneg: "ge v (Fin 0) \<Longrightarrow> ge (Math_sqrt v) (Fin 0) \<and> Math_sqrt v \<noteq> NaN"
  by (cases v) simp_all

lemma sqrt_of_other: "\<not> ge v (Fin 0) \<Longrightarrow> Math_sqrt v = NaN"
  by (cases v) simp_all

lemma variance_nonneg_or_nan:
  "k \<notin> {Poisson, Binomial} \<Longrightarrow> nonneg_or_nan (dist_variance k ps)"
proof (cases k)
  case Normal
  then show ?thesis by (simp add: square_nonneg_or_nan del: Math_pow.simps)
next
  case Uniform
  have "nonneg_or_nan (y / Fin 12)" if "nonneg_or_nan y" for y
    using that by (cases y) (simp_all add: nonneg_or_nan_def)
  with Uniform show ?thesis by (simp add: square_nonneg_or_nan del: Math_pow.simps)
next
  case Exponential
  have "nonneg_or_nan (Fin 1 / y)" if "nonneg_or_nan y" for y
    using that by (cases y) (simp_all add: nonneg_or_nan_def)
  with Exponential show ?thesis by (simp add: square_nonneg_or_nan del: Math_pow.simps)
next
  case Rayleigh
  have "0 < 2 - pi / 2"
    using pi_less_4 by simp
  then have "nonneg_or_nan ((Fin 2 - Math_PI / Fin 2) * y)" if "nonneg_or_nan y" for y
    using that by (cases y) (simp_all add: nonneg_or_nan_def Math_PI_def minus_num_def)
  with Rayleigh show ?thesis by (simp add: square_nonneg_or_nan del: Math_pow.simps)
next
  case Laplacian
  have "nonneg_or_nan (Fin 2 * y)" if "nonneg_or_nan y" for y
    using that by (cases y) (simp_all add: nonneg_or_nan_def)
  with Laplacian show ?thesis by (simp add: square_nonneg_or_nan del: Math_pow.simps)
qed simp_all

lemma poisson_negative_variance:
  "computeStatistics ''poisson'' [Fin (- 3)]
     = Inr \<lparr>mean = Fin (- 3), variance = Fin (- 3), stdDev = NaN\<rparr>"
  by (simp add: computeStatistics_def distributions_def arg_def)

lemma binomial_negative_variance:
  "computeStatistics ''binomial'' [Fin 10, Fin 2]
     = Inr \<lparr>mean = Fin 20, variance = Fin (- 20), stdDev = NaN\<rparr>"
  by (simp add: computeStatistics_def distributions_def arg_def minus_num_def)

text \<open>
  Claim C9, as amended. For every kind and parameter list \<open>stdDev\<close> is
  \<open>Math.sqrt(variance)\<close>. When \<open>variance >= 0\<close> holds, \<open>stdDev >= 0\<close> and
  \<open>stdDev == sqrt(variance)\<close> hold as well; when it does not (the variance is negative or
  \<open>NaN\<close>), \<open>stdDev\<close> is \<open>NaN\<close>. For the normal, uniform, exponential, rayleigh and
  laplacian kinds the variance is \<open>NaN\<close> or \<open>>= 0\<close>. The poisson and the binomial variance
  can be negative: the poisson kind with rate -3 has variance -3, and the binomial kind
  with \<open>n = 10\<close> and \<open>p = 2\<close> has variance -20.
\<close>

theorem C9_stdDev_is_sqrt_of_variance:
  assumes "computeStatistics type params = Inr s"
  shows "stdDev s = Math_sqrt (variance s)
     \<and> (ge (variance s) (Fin 0)
          \<longrightarrow> ge (stdDev s) (Fin 0) \<and> strict_eq (stdDev s) (Math_sqrt (variance s)))
     \<and> (\<not> ge (variance s) (Fin 0) \<longrightarrow> stdDev s = NaN)
     \<and> (type \<in> {''normal'', ''uniform'', ''exponential'', ''rayleigh'', ''laplacian''}
          \<longrightarrow> variance s = NaN \<or> ge (variance s) (Fin 0))
     \<and> computeStatistics ''poisson'' [Fin (- 3)]
         = Inr \<lparr>mean = Fin (- 3), variance = Fin (- 3), stdDev = NaN\<rparr>
     \<and> computeStatistics ''binomial'' [Fin 10, Fin 2]
         = Inr \<lparr>mean = Fin 20, variance = Fin (- 20), stdDev = NaN\<rparr>
     \<and> \<not> ge (Fin (- 3)) (Fin 0) \<and> \<not> ge (Fin (- 20)) (Fin 0)"
proof -
  from assms obtain k where k: "distributions type = Descriptor k"
    and s: "s = \<lparr>mean = dist_mean k params, variance = dist_variance k params,
                  stdDev = Math_sqrt (dist_variance k params)\<rparr>"
    by (auto simp: computeStatistics_def Let_def split: property.splits)
  have sd: "stdDev s = Math_sqrt (variance s)"
    using s by simp
  have "k \<notin> {Poisson, Binomial}"
    if "type \<in> {''normal'', ''uniform'', ''exponential'', ''rayleigh'', ''laplacian''}"
    using that k by (auto simp: distributions_def)
  then have "variance s = NaN \<or> ge (variance s) (Fin 0)"
    if "type \<in> {''normal'', ''uniform'', ''exponential'', ''rayleigh'', ''laplacian''}"
    using that variance_nonneg_or_nan[of k params] s by (simp add: nonneg_or_nan_def)
  then have general: "stdDev s = Math_sqrt (variance s)
     \<and> (ge (variance s) (Fin 0)
          \<longrightarrow> ge (stdDev s) (Fin 0) \<and> strict_eq (stdDev s) (Math_sqrt (variance s)))
     \<and> (\<not> ge (variance s) (Fin 0) \<longrightarrow> stdDev s = NaN)
     \<and> (type \<in> {''normal'', ''uniform'', ''exponential'', ''rayleigh'', ''laplacian''}
          \<longrightarrow> variance s = NaN \<or> ge (variance s) (Fin 0))"
    using sd sqrt_of_nonneg[of "variance s"] sqrt_of_other[of "variance s"]
    by (auto simp: strict_eq_def)
  have neg: "\<not> ge (Fin (- 3)) (Fin 0) \<and> \<not> ge (Fin (- 20)) (Fin 0)"
    by simp
  from general poisson_negative_variance binomial_negative_variance neg show ?thesis
    by (intro conjI) (elim conjE, assumption)+
qed

theorem C9_witness:
  "computeStatistics ''uniform'' [Fin 1, Fin 7]
     = Inr \<lparr>mean = Fin 4, variance = Fin 3, stdDev = Fin (sqrt 3)\<rparr>
   \<and> ge (Fin 3) (Fin 0) \<and> ge (Fin (sqrt 3)) (Fin 0)
   \<and> strict_eq (Fin (sqrt 3)) (Math_sqrt (Fin 3))"
proof -
  have c: "computeStatistics ''uniform'' [Fin 1, Fin 7]
     = Inr \<lparr>mean = Fin 4, variance = Fin 3, stdDev = Fin (sqrt 3)\<rparr>"
    by (simp add: computeStatistics_def distributions_def arg_def minus_num_def)
  show ?thesis
    using C9_stdDev_is_sqrt_of_variance[OF c] c by simp
qed

text \<open>
  Claim C9 as stated (\<open>variance >= 0\<close>, \<open>stdDev >= 0\<close> and \<open>stdDev == sqrt(variance)\<close>
  for every kind and parameter list) fails for the poisson kind with rate -3: the variance
  is -3 and \<open>stdDev\<close> is \<open>NaN\<close>. It fails for the binomial kind with \<open>n = 10\<close> and
  \<open>p = 2\<close> as well: the variance is -20.
\<close>

theorem C9_poisson_negative_rate:
  "computeStatistics ''poisson'' [Fin (- 3)]
     = Inr \<lparr>mean = Fin (- 3), variance = Fin (- 3), stdDev = NaN\<rparr>
   \<and> \<not> ge (Fin (- 3)) (Fin 0) \<and> \<not> ge NaN (Fin 0) \<and> \<not> strict_eq NaN (Math_sqrt (Fin (- 3)))
   \<and> computeStatistics ''binomial'' [Fin 10, Fin 2]
     = Inr \<lparr>mean = Fin 20, variance = Fin (- 20), stdDev = NaN\<rparr>
   \<and> \<not> ge (Fin (- 20)) (Fin 0)"
  using poisson_negative_variance binomial_negative_variance by (simp add: strict_eq_def)

section \<open>The binomial kind on integer parameters\<close>

lemma Math_pow_nat: "Math_pow (Fin b) (Fin (real k)) = Fin (b ^ k)"
proof (cases "k = 0")
  case True
  then show ?thesis by simp
next
  case False
  then have e: "real k \<noteq> 0" "0 < real k"
    by simp_all
  consider "b = 0" | "0 < b" | "b < 0"
    by linarith
  then show ?thesis
  proof cases
    case 1
    with False show ?thesis by simp
  next
    case 2
    with False show ?thesis by (simp add: powr_realpow)
  next
    case 3
    have fl: "real_of_int \<lfloor>real k\<rfloor> = real k" "odd \<lfloor>real k\<rfloor> = odd k"
      by simp_all
    have abs: "\<bar>b\<bar> powr real k = \<bar>b\<bar> ^ k"
      using 3 by (simp add: powr_realpow)
    have "b ^ k = (- \<bar>b\<bar>) ^ k"
      using 3 by simp
    also have "\<dots> = (if odd k then - 1 else 1) * \<bar>b\<bar> ^ k"
      by (subst power_minus) (simp add: minus_one_power_iff)
    finally have "b ^ k = (if odd k then - 1 else 1) * \<bar>b\<bar> ^ k" .
    with 3 False fl abs show ?thesis
      by simp
  qed
qed

lemma pdf_binomial_nat:
  assumes "k \<le> n"
  shows "pdf Binomial (Fin (real k)) [Fin (real n), Fin p]
         = Inr (Fin (real (n choose k) * p ^ k * (1 - p) ^ (n - k)))"
proof -
  have c: "combinations (Fin (real n)) (Fin (real k)) = Inr (Fin (real (n choose k)))"
    using assms by (simp add: combinations_def)
  have d: "Fin (real n) - Fin (real k) = Fin (real (n - k))"
    using assms by (simp add: minus_num_def)
  have "Math_pow (Fin 1 - Fin p) (Fin (real n) - Fin (real k)) = Fin ((1 - p) ^ (n - k))"
    unfolding d by (simp add: minus_num_def Math_pow_nat del: Math_pow.simps)
  then show ?thesis
    using c by (simp add: arg_def Let_def Math_pow_nat del: Math_pow.simps)
qed

lemma array_map_map:
  "(\<And>x. x \<in> set xs \<Longrightarrow> f x = Inr (g x)) \<Longrightarrow> array_map f xs = Inr (map g xs)"
  by (induction xs) simp_all

lemma handler_payload:
  assumes "handler type q = Inr (Status200 r)"
  shows "\<exists>k. distributions type = Descriptor k
     \<and> array_map (\<lambda>x. pdf k x (request_params q)) (xValues r) = Inr (pdfValues r)
     \<and> cdfValues r = computeCDF (pdfValues r)
     \<and> stats r = \<lparr>mean = dist_mean k (request_params q),
                    variance = dist_variance k (request_params q),
                    stdDev = Math_sqrt (dist_variance k (request_params q))\<rparr>"
proof (cases "distributions type")
  case (Descriptor k)
  with assms show ?thesis
    by (auto simp: handler_def computeStatistics_def call_pdf_def Let_def
        split: if_splits sum.splits)
next
  case Inherited
  with assms show ?thesis
    by (auto simp: handler_def computeStatistics_def Let_def split: if_splits sum.splits)
next
  case Undefined
  with assms show ?thesis
    by (simp add: handler_def)
qed

lemma handler_binomial:
  assumes "request_params q = [Fin (real n), Fin p]" and "19 \<le> n"
  shows "\<exists>r. handler ''binomial'' q = Inr (Status200 r)
     \<and> pdfValues r = map (\<lambda>k. Fin (real (n choose k) * p ^ k * (1 - p) ^ (n - k))) [0..<20]
     \<and> cdfValues r = computeCDF (pdfValues r)"
proof -
  let ?g = "\<lambda>k. Fin (real (n choose k) * p ^ k * (1 - p) ^ (n - k))"
  have "array_map (\<lambda>x. pdf Binomial x [Fin (real n), Fin p]) (map (\<lambda>i. Fin (real i)) [0..<20])
        = Inr (map (\<lambda>x. ?g (nat (int_of x))) (map (\<lambda>i. Fin (real i)) [0..<20]))"
  proof (rule array_map_map)
    fix x assume "x \<in> set (map (\<lambda>i. Fin (real i)) [0..<20])"
    then obtain k where k: "x = Fin (real k)" "k < 20"
      by auto
    with assms(2) have "k \<le> n" by simp
    from pdf_binomial_nat[OF this] k
    show "pdf Binomial x [Fin (real n), Fin p] = Inr (?g (nat (int_of x)))"
      by simp
  qed
  then have "array_map (\<lambda>x. pdf Binomial x [Fin (real n), Fin p]) (math_range (Double 0 0) (Double 20 0) (Double 1 0))
        = Inr (map ?g [0..<20])"
    by (simp add: range_discrete comp_def del: upt_Suc)
  then show ?thesis
    using assms(1)
    by (simp add: handler_def distributions_binomial call_pdf_def computeStatistics_def Let_def
        del: upt_Suc)
qed

lemma upt_20: "[0..<20] = [0, 1, 2, 3, 4, 5, 6, 7, 8, 9, 10, 11, 12, 13, 14, 15, 16, 17, 18, 19]"
  by (simp add: upt_rec)

lemma parse_19: "parseFloat ''19'' = Fin 19"
  by (simp add: parseFloat_def unsigned_literal_def isDigit_def isWhiteSpace_def
      digits_value_def exponent_part_def)

lemma parse_20: "parseFloat ''20'' = Fin 20"
  by (simp add: parseFloat_def unsigned_literal_def isDigit_def isWhiteSpace_def
      digits_value_def exponent_part_def)

lemma parse_minus_1: "parseFloat ''-1'' = Fin (- 1)"
  by (simp add: parseFloat_def unsigned_literal_def isDigit_def isWhiteSpace_def
      digits_value_def exponent_part_def)

lemma parse_1: "parseFloat ''1'' = Fin 1"
  by (simp add: parseFloat_def unsigned_literal_def isDigit_def isWhiteSpace_def
      digits_value_def exponent_part_def)

lemma parse_half: "parseFloat ''0.5'' = Fin (1 / 2)"
  by (simp add: parseFloat_def unsigned_literal_def isDigit_def isWhiteSpace_def
      digits_value_def exponent_part_def)

lemma request_params_n_p:
  "request_params [(''n'', n), (''p'', p)] = [parseFloat n, parseFloat p]"
  by (simp add: request_params_def object_keys_def isArrayIndex_def isDigit_def
      parse_property_def)

lemma densities_19_minus_1:
  "map (\<lambda>k. Fin (real (19 choose k) * (- 1) ^ k * (1 - (- 1)) ^ (19 - k))) [0..<20]
   = [Fin 524288, Fin (- 4980736), Fin 22413312, Fin (- 63504384), Fin 127008768,
      Fin (- 190513152), Fin 222265344, Fin (- 206389248), Fin 154791936, Fin (- 94595072),
      Fin 47297536, Fin (- 19348992), Fin 6449664, Fin (- 1736448), Fin 372096, Fin (- 62016),
      Fin 7752, Fin (- 684), Fin 38, Fin (- 1)]"
  unfolding upt_20 by (simp add: binomial_fact fact_numeral)

lemma densities_20_minus_1:
  "map (\<lambda>k. Fin (real (20 choose k) * (- 1) ^ k * (1 - (- 1)) ^ (20 - k))) [0..<20]
   = [Fin 1048576, Fin (- 10485760), Fin 49807360, Fin (- 149422080), Fin 317521920,
      Fin (- 508035072), Fin 635043840, Fin (- 635043840), Fin 515973120, Fin (- 343982080),
      Fin 189190144, Fin (- 85995520), Fin 32248320, Fin (- 9922560), Fin 2480640,
      Fin (- 496128), Fin 77520, Fin (- 9120), Fin 760, Fin (- 40)]"
  unfolding upt_20 by (simp add: binomial_fact fact_numeral)

lemma densities_20_1:
  "map (\<lambda>k. Fin (real (20 choose k) * 1 ^ k * (1 - 1) ^ (20 - k))) [0..<20]
   = [Fin 0, Fin 0, Fin 0, Fin 0, Fin 0, Fin 0, Fin 0, Fin 0, Fin 0, Fin 0,
      Fin 0, Fin 0, Fin 0, Fin 0, Fin 0, Fin 0, Fin 0, Fin 0, Fin 0, Fin 0]"
  unfolding upt_20 by simp

lemma densities_19_half:
  "map (\<lambda>k. Fin (real (19 choose k) * (1 / 2) ^ k * (1 - 1 / 2) ^ (19 - k))) [0..<20]
   = map (\<lambda>k. Fin (real (19 choose k) / 524288)) [0..<20]"
proof -
  have "(1 / 2 :: real) ^ k * (1 - 1 / 2) ^ (19 - k) = 1 / 524288" if "k < 20" for k
  proof -
    have "(1 / 2 :: real) ^ k * (1 / 2) ^ (19 - k) = (1 / 2) ^ (k + (19 - k))"
      by (simp only: power_add)
    also have "\<dots> = (1 / 2) ^ 19"
      using that by simp
    finally show ?thesis by (simp add: power_one_over)
  qed
  then show ?thesis
    by (simp add: mult.assoc del: upt_Suc)
qed

section \<open>Monotonicity of the derived CDF\<close>

lemma plus_Fin_cases: "x + y = Fin c \<Longrightarrow> \<exists>a b. x = Fin a \<and> y = Fin b"
  by (cases x; cases y) simp_all

lemma foldl_Fin_start: "foldl (+) s ps = Fin t \<Longrightarrow> \<exists>a. s = Fin a"
proof (induction ps arbitrary: s)
  case Nil
  then show ?case by simp
next
  case (Cons p ps)
  then have "\<exists>a. s + p = Fin a"
    by simp
  then show ?case
    using plus_Fin_cases by blast
qed

lemma foldl_finite_all: "foldl (+) s ps = Fin t \<Longrightarrow> list_all isFinite ps"
proof (induction ps arbitrary: s)
  case Nil
  show ?case by simp
next
  case (Cons p ps)
  then have rest: "foldl (+) (s + p) ps = Fin t"
    by simp
  then obtain a where "s + p = Fin a"
    using foldl_Fin_start by blast
  then obtain b where "p = Fin b"
    using plus_Fin_cases by blast
  with Cons.IH[OF rest] show ?case
    by simp
qed

lemma foldl_Fin: "foldl (+) (Fin s) (map Fin vs) = Fin (s + sum_list vs)"
  by (induction vs arbitrary: s) (simp_all add: add.assoc)

lemma finite_nonneg_list:
  "list_all (\<lambda>p. isFinite p \<and> ge p (Fin 0)) ps
   \<Longrightarrow> \<exists>vs. ps = map Fin vs \<and> (\<forall>v\<in>set vs. 0 \<le> v)"
proof (induction ps)
  case Nil
  show ?case by simp
next
  case (Cons p ps)
  then obtain vs where vs: "ps = map Fin vs" "\<forall>v\<in>set vs. 0 \<le> v"
    by auto
  from Cons.prems obtain v where v: "p = Fin v" "0 \<le> v"
    by (cases p) simp_all
  have "p # ps = map Fin (v # vs) \<and> (\<forall>u\<in>set (v # vs). 0 \<le> u)"
    using v vs by simp
  then show ?case by (rule exI[where x = "v # vs"])
qed

lemma sum_list_take_mono:
  assumes "\<forall>v\<in>set vs. (0::real) \<le> v" and "i \<le> j"
  shows "sum_list (take i vs) \<le> sum_list (take j vs)"
proof -
  have "take j vs = take i vs @ take (j - i) (drop i vs)"
    using assms(2) by (metis le_add_diff_inverse take_add)
  moreover have "0 \<le> sum_list (take (j - i) (drop i vs))"
    using assms(1) by (intro sum_list_nonneg) (meson in_set_dropD in_set_takeD)
  ultimately show ?thesis by simp
qed

lemma computeCDF_nonneg:
  assumes "\<forall>v\<in>set vs. (0::real) \<le> v" and "0 < sum_list vs"
  shows "nondecreasing (computeCDF (map Fin vs))"
    and "last (computeCDF (map Fin vs)) = Fin 1"
proof -
  let ?t = "sum_list vs"
  have cum: "cumulative_sum (map Fin vs) k = Fin (sum_list (take (Suc k) vs))" for k
    using foldl_Fin[of 0 "take (Suc k) vs"] by (simp add: cumulative_sum_def take_map)
  have tot: "total_density (map Fin vs) = Fin ?t"
    using foldl_Fin[of 0 vs] by (simp add: total_density_def)
  have cdf: "computeCDF (map Fin vs)
      = map (\<lambda>k. Fin (sum_list (take (Suc k) vs) / ?t)) [0..<length vs]"
    using assms(2) by (simp add: computeCDF_eq cum tot del: upt_Suc)
  have "le (Fin (sum_list (take (Suc i) vs) / ?t)) (Fin (sum_list (take (Suc j) vs) / ?t))"
    if "i < j" for i j
    using that assms sum_list_take_mono[of vs "Suc i" "Suc j"]
    by (simp add: le_def divide_right_mono)
  then show "nondecreasing (computeCDF (map Fin vs))"
    unfolding cdf nondecreasing_def by (simp add: sorted_wrt_iff_nth_less del: upt_Suc)
  from assms(2) have "vs \<noteq> []"
    by auto
  then have "last (computeCDF (map Fin vs)) = Fin (sum_list (take (Suc (length vs - 1)) vs) / ?t)"
    unfolding cdf by (simp add: last_map del: upt_Suc)
  also have "\<dots> = Fin 1"
    using assms(2) \<open>vs \<noteq> []\<close> by simp
  finally show "last (computeCDF (map Fin vs)) = Fin 1" .
qed

lemma computeCDF_last:
  assumes "total_density ps = Fin t" and "t \<noteq> 0"
  shows "last (computeCDF ps) = Fin 1"
proof -
  from assms have ne: "ps \<noteq> []"
    by (auto simp: total_density_def)
  then have "last (computeCDF ps) = cumulative_sum ps (length ps - 1) / total_density ps"
    unfolding computeCDF_eq by (simp add: last_map del: upt_Suc)
  moreover have "cumulative_sum ps (length ps - 1) = total_density ps"
    using ne by (simp add: cumulative_sum_def total_density_def)
  ultimately show ?thesis
    using assms by simp
qed

lemma handler_lengths:
  assumes "handler type q = Inr (Status200 r)"
  shows "length (cdfValues r) = length (pdfValues r)"
    and "length (pdfValues r) = length (xValues r)"
proof -
  from handler_payload[OF assms] obtain k where
    m: "array_map (\<lambda>x. pdf k x (request_params q)) (xValues r) = Inr (pdfValues r)"
    and c: "cdfValues r = computeCDF (pdfValues r)"
    by blast
  show "length (cdfValues r) = length (pdfValues r)"
    unfolding c computeCDF_eq by simp
  show "length (pdfValues r) = length (xValues r)"
    using m by (rule array_map_length)
qed

text \<open>
  Claim C4, as amended. In every answer \<open>cdfValues\<close>, \<open>pdfValues\<close> and \<open>xValues\<close> have
  the same length. Whenever the total of the sampled densities is finite and strictly
  positive, the last element of \<open>cdfValues\<close> is 1. When in addition every sampled density
  is non-negative, \<open>cdfValues\<close> is non-decreasing.
\<close>

theorem C4_cdf_of_nonnegative_densities:
  assumes "handler type q = Inr (Status200 r)"
  shows "length (cdfValues r) = length (pdfValues r)
     \<and> length (pdfValues r) = length (xValues r)
     \<and> (isFinite (total_density (pdfValues r)) \<and> gt (total_density (pdfValues r)) (Fin 0)
        \<longrightarrow> last (cdfValues r) = Fin 1)
     \<and> (isFinite (total_density (pdfValues r)) \<and> gt (total_density (pdfValues r)) (Fin 0)
          \<and> list_all (\<lambda>p. ge p (Fin 0)) (pdfValues r)
        \<longrightarrow> nondecreasing (cdfValues r))"
proof -
  from handler_payload[OF assms] have c: "cdfValues r = computeCDF (pdfValues r)"
    by blast
  have last: "last (cdfValues r) = Fin 1"
    if fin: "isFinite (total_density (pdfValues r))"
      and pos: "gt (total_density (pdfValues r)) (Fin 0)"
  proof -
    from fin obtain t where t: "total_density (pdfValues r) = Fin t"
      by (cases "total_density (pdfValues r)") simp_all
    with pos have "t \<noteq> 0"
      by simp
    with t show ?thesis
      unfolding c by (rule computeCDF_last)
  qed
  have mono: "nondecreasing (cdfValues r)"
    if fin: "isFinite (total_density (pdfValues r))"
      and pos: "gt (total_density (pdfValues r)) (Fin 0)"
      and nonneg: "list_all (\<lambda>p. ge p (Fin 0)) (pdfValues r)"
  proof -
    from fin obtain t where t: "total_density (pdfValues r) = Fin t"
      by (cases "total_density (pdfValues r)") simp_all
    then have "list_all isFinite (pdfValues r)"
      unfolding total_density_def by (rule foldl_finite_all)
    with nonneg have "list_all (\<lambda>p. isFinite p \<and> ge p (Fin 0)) (pdfValues r)"
      by (simp add: list_all_iff)
    from finite_nonneg_list[OF this] obtain vs where
      vs: "pdfValues r = map Fin vs" "\<forall>v\<in>set vs. 0 \<le> v"
      by blast
    have "total_density (map Fin vs) = Fin (sum_list vs)"
      using foldl_Fin[of 0 vs] by (simp add: total_density_def)
    with pos vs(1) have "0 < sum_list vs"
      by simp
    from computeCDF_nonneg(1)[OF vs(2) this] show ?thesis
      unfolding c vs(1) .
  qed
  from last mono show ?thesis
    using handler_lengths[OF assms] by blast
qed

theorem C4_witness:
  "\<exists>r. handler ''binomial'' [(''n'', ''19''), (''p'', ''0.5'')] = Inr (Status200 r)
     \<and> list_all (\<lambda>p. ge p (Fin 0)) (pdfValues r)
     \<and> isFinite (total_density (pdfValues r))
     \<and> gt (total_density (pdfValues r)) (Fin 0)
     \<and> length (cdfValues r) = 20 \<and> length (xValues r) = 20
     \<and> nondecreasing (cdfValues r) \<and> last (cdfValues r) = Fin 1"
proof -
  have "request_params [(''n'', ''19''), (''p'', ''0.5'')] = [Fin (real 19), Fin (1 / 2)]"
    by (simp add: request_params_n_p parse_19 parse_half)
  from handler_binomial[OF this]
  obtain r where r: "handler ''binomial'' [(''n'', ''19''), (''p'', ''0.5'')] = Inr (Status200 r)"
    and p: "pdfValues r
      = map (\<lambda>k. Fin (real (19 choose k) * (1 / 2) ^ k * (1 - 1 / 2) ^ (19 - k))) [0..<20]"
    by auto
  note p' = p[unfolded densities_19_half]
  have nonneg: "list_all (\<lambda>p. ge p (Fin 0)) (pdfValues r)"
    unfolding p' by (simp add: list_all_iff del: upt_Suc)
  have "total_density (pdfValues r) = Fin 1"
    unfolding p' upt_20 by (simp add: total_density_def binomial_fact fact_numeral)
  then have tot: "isFinite (total_density (pdfValues r))" "gt (total_density (pdfValues r)) (Fin 0)"
    by simp_all
  have len: "length (pdfValues r) = 20"
    unfolding p' by simp
  show ?thesis
    using C4_cdf_of_nonnegative_densities[OF r] r nonneg tot len by auto
qed

lemma not_nondecreasing:
  assumes "take 2 cs = [a, b]" and "\<not> le a b"
  shows "\<not> nondecreasing cs"
proof -
  have "cs = take 2 cs @ drop 2 cs"
    by simp
  with assms(1) have "cs = a # b # drop 2 cs"
    by simp
  then have "nondecreasing cs \<Longrightarrow> le a b"
    unfolding nondecreasing_def by (metis sorted_wrt.simps(2) list.set_intros(1))
  with assms(2) show ?thesis by blast
qed

lemma cumulative_sum_Cons0: "cumulative_sum (p # ps) 0 = Fin 0 + p"
  by (simp add: cumulative_sum_def)

lemma cumulative_sum_Cons1: "cumulative_sum (p # p' # ps) (Suc 0) = Fin 0 + p + p'"
  by (simp add: cumulative_sum_def)

lemma take_2_map_upt: "2 \<le> n \<Longrightarrow> take 2 (map f [0..<n]) = [f 0, f (Suc 0)]"
proof -
  assume "2 \<le> n"
  then have "take 2 [0..<n] = [0, Suc 0]"
    by (simp add: numeral_2_eq_2 upt_rec)
  then show ?thesis
    by (simp add: take_map)
qed

lemma request_params_19_minus_1: "request_params [(''n'', ''19''), (''p'', ''-1'')] = [Fin (real 19), Fin (- 1)]"
    by (simp add: request_params_n_p parse_19 parse_minus_1)

lemma total_19_minus_1: "total_density [Fin 524288, Fin (- 4980736), Fin 22413312, Fin (- 63504384), Fin 127008768,
      Fin (- 190513152), Fin 222265344, Fin (- 206389248), Fin 154791936, Fin (- 94595072),
      Fin 47297536, Fin (- 19348992), Fin 6449664, Fin (- 1736448), Fin 372096, Fin (- 62016),
      Fin 7752, Fin (- 684), Fin 38, Fin (- 1)] = Fin 1"
    by (simp add: total_density_def)

text \<open>
  Claim C4 as stated asks only for a strictly positive total. The binomial kind with
  \<open>n = 19\<close> and \<open>p = -1\<close> has sampled densities of alternating sign whose total is 1,
  and its \<open>cdfValues\<close> start with 524288 followed by -4456448.
\<close>

theorem C4_binomial_negative_p_not_monotone:
  "map_option (total_density \<circ> pdfValues)
       (replied (handler ''binomial'' [(''n'', ''19''), (''p'', ''-1'')])) = Some (Fin 1)
   \<and> gt (Fin 1) (Fin 0)
   \<and> map_option (take 2 \<circ> cdfValues)
       (replied (handler ''binomial'' [(''n'', ''19''), (''p'', ''-1'')]))
       = Some [Fin 524288, Fin (- 4456448)]
   \<and> \<not> le (Fin 524288) (Fin (- 4456448))
   \<and> map_option (nondecreasing \<circ> cdfValues)
       (replied (handler ''binomial'' [(''n'', ''19''), (''p'', ''-1'')])) = Some False"
proof -
  from handler_binomial[OF request_params_19_minus_1]
  obtain r where r: "handler ''binomial'' [(''n'', ''19''), (''p'', ''-1'')] = Inr (Status200 r)"
    and p: "pdfValues r
      = map (\<lambda>k. Fin (real (19 choose k) * (- 1) ^ k * (1 - (- 1)) ^ (19 - k))) [0..<20]"
    and c: "cdfValues r = computeCDF (pdfValues r)"
    by auto
  note p' = p[unfolded densities_19_minus_1]
  have t: "total_density (pdfValues r) = Fin 1"
    unfolding p' by (rule total_19_minus_1)
  have len: "length (pdfValues r) = 20"
    unfolding p' by simp
  have c2: "take 2 (cdfValues r)
      = [cumulative_sum (pdfValues r) 0 / Fin 1, cumulative_sum (pdfValues r) (Suc 0) / Fin 1]"
    unfolding c computeCDF_eq t len by (rule take_2_map_upt) simp
  have c3: "take 2 (cdfValues r) = [Fin 524288, Fin (- 4456448)]"
    unfolding c2 p' by (simp add: cumulative_sum_Cons0 cumulative_sum_Cons1)
  have nle: "\<not> le (Fin 524288) (Fin (- 4456448))"
    by (simp add: le_def)
  from c3 nle have "\<not> nondecreasing (cdfValues r)"
    by (rule not_nondecreasing)
  with c3 nle t show ?thesis
    unfolding r by (simp add: replied_def)
qed

section \<open>A total of zero\<close>

lemma cumulative_sum_finite:
  assumes "total_density ps = Fin t"
  shows "\<exists>a. cumulative_sum ps k = Fin a"
proof -
  have "foldl (+) (Fin 0) ps
      = foldl (+) (foldl (+) (Fin 0) (take (Suc k) ps)) (drop (Suc k) ps)"
    by (metis append_take_drop_id foldl_append)
  with assms show ?thesis
    unfolding total_density_def cumulative_sum_def using foldl_Fin_start by metis
qed

lemma handler_nonempty:
  assumes "handler type q = Inr (Status200 r)"
  shows "xValues r \<noteq> []"
  using handler_xValues[OF assms] by (simp add: range_discrete_list range_continuous_Cons)

text \<open>
  Claim C8, as amended. When the sampled densities sum to exactly 0, every returned
  \<open>cdfValue\<close> is a running sum divided by 0, passed on with no special case: none is
  finite, a value is \<open>NaN\<close> exactly where the running sum up to its sample is 0, and it is
  \<open>Infinity\<close> or \<open>-Infinity\<close> elsewhere. The last value is \<open>NaN\<close>, and when every sampled
  density is 0 all values are \<open>NaN\<close>.
\<close>

theorem C8_cdf_of_zero_total:
  assumes "handler type q = Inr (Status200 r)"
    and "total_density (pdfValues r) = Fin 0"
  shows "list_all (\<lambda>c. c = NaN \<or> c = PInf \<or> c = NInf) (cdfValues r)
     \<and> (\<forall>i<length (cdfValues r).
          (cdfValues r ! i = NaN) = (cumulative_sum (pdfValues r) i = Fin 0))
     \<and> last (cdfValues r) = NaN
     \<and> (list_all (\<lambda>p. p = Fin 0) (pdfValues r) \<longrightarrow> list_all (\<lambda>c. c = NaN) (cdfValues r))"
proof -
  from handler_payload[OF assms(1)] have c: "cdfValues r = computeCDF (pdfValues r)"
    by blast
  let ?ps = "pdfValues r"
  have len: "length (cdfValues r) = length ?ps"
    using handler_lengths(1)[OF assms(1)] .
  have nth: "cdfValues r ! i = cumulative_sum ?ps i / Fin 0" if "i < length ?ps" for i
    using that unfolding c computeCDF_eq assms(2) by simp
  have each: "(cdfValues r ! i = NaN \<or> cdfValues r ! i = PInf \<or> cdfValues r ! i = NInf)
      \<and> (cdfValues r ! i = NaN) = (cumulative_sum ?ps i = Fin 0)"
    if "i < length ?ps" for i
  proof -
    from cumulative_sum_finite[OF assms(2)] obtain a where "cumulative_sum ?ps i = Fin a"
      by blast
    with nth[OF that] show ?thesis
      by simp
  qed
  have all: "list_all (\<lambda>c. c = NaN \<or> c = PInf \<or> c = NInf) (cdfValues r)"
    unfolding list_all_length using each len by metis
  have ne: "?ps \<noteq> []"
    using handler_nonempty[OF assms(1)] handler_lengths(2)[OF assms(1)] by auto
  then have "last (cdfValues r) = cdfValues r ! (length ?ps - 1)"
    using len by (metis last_conv_nth length_0_conv)
  moreover have "cumulative_sum ?ps (length ?ps - 1) = Fin 0"
    using ne assms(2) by (simp add: cumulative_sum_def total_density_def)
  ultimately have last: "last (cdfValues r) = NaN"
    using each[of "length ?ps - 1"] ne by simp
  have zeros: "list_all (\<lambda>c. c = NaN) (cdfValues r)" if z: "list_all (\<lambda>p. p = Fin 0) ?ps"
  proof -
    have "foldl (+) (Fin 0) zs = Fin 0" if "list_all (\<lambda>p. p = Fin 0) zs" for zs
      using that by (induction zs) simp_all
    moreover have "list_all (\<lambda>p. p = Fin 0) (take (Suc i) ?ps)" for i
      using z by (auto simp: list_all_iff dest: in_set_takeD)
    ultimately have "cumulative_sum ?ps i = Fin 0" for i
      by (simp add: cumulative_sum_def)
    with each len show ?thesis
      unfolding list_all_length by metis
  qed
  from each len have "\<forall>i<length (cdfValues r).
      (cdfValues r ! i = NaN) = (cumulative_sum ?ps i = Fin 0)"
    by simp
  with all last zeros show ?thesis
    by blast
qed

lemma request_params_20_1: "request_params [(''n'', ''20''), (''p'', ''1'')] = [Fin (real 20), Fin 1]"
  by (simp add: request_params_n_p parse_20 parse_1)

lemma request_params_20_minus_1:
  "request_params [(''n'', ''20''), (''p'', ''-1'')] = [Fin (real 20), Fin (- 1)]"
  by (simp add: request_params_n_p parse_20 parse_minus_1)

theorem C8_witness:
  "\<exists>r. handler ''binomial'' [(''n'', ''20''), (''p'', ''1'')] = Inr (Status200 r)
     \<and> total_density (pdfValues r) = Fin 0
     \<and> list_all (\<lambda>p. p = Fin 0) (pdfValues r)
     \<and> list_all (\<lambda>c. c = NaN) (cdfValues r)
     \<and> last (cdfValues r) = NaN"
proof -
  from handler_binomial[OF request_params_20_1]
  obtain r where r: "handler ''binomial'' [(''n'', ''20''), (''p'', ''1'')] = Inr (Status200 r)"
    and p: "pdfValues r = map (\<lambda>k. Fin (real (20 choose k) * 1 ^ k * (1 - 1) ^ (20 - k))) [0..<20]"
    by auto
  note p' = p[unfolded densities_20_1]
  have t: "total_density (pdfValues r) = Fin 0"
    unfolding p' by (simp add: total_density_def)
  have z: "list_all (\<lambda>p. p = Fin 0) (pdfValues r)"
    unfolding p' by simp
  show ?thesis
    using C8_cdf_of_zero_total[OF r t] r t z by blast
qed

lemma total_20_minus_1:
  "total_density [Fin 1048576, Fin (- 10485760), Fin 49807360, Fin (- 149422080), Fin 317521920,
      Fin (- 508035072), Fin 635043840, Fin (- 635043840), Fin 515973120, Fin (- 343982080),
      Fin 189190144, Fin (- 85995520), Fin 32248320, Fin (- 9922560), Fin 2480640,
      Fin (- 496128), Fin 77520, Fin (- 9120), Fin 760, Fin (- 40)] = Fin 0"
  by (simp add: total_density_def)

text \<open>
  Claim C8 as stated makes every value \<open>NaN\<close>. The binomial kind with \<open>n = 20\<close> and
  \<open>p = -1\<close> has sampled densities that cancel to a total of exactly 0 while its running
  sums are not 0: its \<open>cdfValues\<close> start with \<open>Infinity\<close> and \<open>-Infinity\<close>.
\<close>

theorem C8_binomial_cancelling_densities:
  "map_option (total_density \<circ> pdfValues)
       (replied (handler ''binomial'' [(''n'', ''20''), (''p'', ''-1'')])) = Some (Fin 0)
   \<and> map_option (take 2 \<circ> cdfValues)
       (replied (handler ''binomial'' [(''n'', ''20''), (''p'', ''-1'')])) = Some [PInf, NInf]
   \<and> PInf \<noteq> NaN"
proof -
  from handler_binomial[OF request_params_20_minus_1]
  obtain r where r: "handler ''binomial'' [(''n'', ''20''), (''p'', ''-1'')] = Inr (Status200 r)"
    and p: "pdfValues r
      = map (\<lambda>k. Fin (real (20 choose k) * (- 1) ^ k * (1 - (- 1)) ^ (20 - k))) [0..<20]"
    and c: "cdfValues r = computeCDF (pdfValues r)"
    by auto
  note p' = p[unfolded densities_20_minus_1]
  have t: "total_density (pdfValues r) = Fin 0"
    unfolding p' by (rule total_20_minus_1)
  have len: "length (pdfValues r) = 20"
    unfolding p' by simp
  have c2: "take 2 (cdfValues r)
      = [cumulative_sum (pdfValues r) 0 / Fin 0, cumulative_sum (pdfValues r) (Suc 0) / Fin 0]"
    unfolding c computeCDF_eq t len by (rule take_2_map_upt) simp
  have c3: "take 2 (cdfValues r) = [PInf, NInf]"
    unfolding c2 p' by (simp add: cumulative_sum_Cons0 cumulative_sum_Cons1)
  with t show ?thesis
    unfolding r by (simp add: replied_def)
qed

section \<open>Binding the query to the parameters\<close>

lemma map_fst_insort_key:
  "map fst (insort_key (\<lambda>e. g (fst e)) x xs) = insort_key g (fst x) (map fst xs)"
  by (induction xs) simp_all

lemma map_fst_sort_key:
  "map fst (sort_key (\<lambda>e. g (fst e)) xs) = sort_key g (map fst xs)"
  by (induction xs) (simp_all add: map_fst_insort_key)

lemma keys_of_enumerated: "map fst (enumerated q) = object_keys q"
  by (simp add: enumerated_def object_keys_def map_fst_sort_key filter_map comp_def)

lemma set_enumerated: "set (enumerated q) = set q"
  by (auto simp: enumerated_def)

lemma request_params_enumerated:
  assumes "distinct (map fst q)"
  shows "request_params q = map (\<lambda>e. parseFloat (snd e)) (enumerated q)"
proof -
  have "parse_property q (fst e) = parseFloat (snd e)" if "e \<in> set (enumerated q)" for e
  proof -
    from that have "(fst e, snd e) \<in> set q"
      by (simp add: set_enumerated)
    with assms have "map_of q (fst e) = Some (snd e)"
      by (rule map_of_is_SomeI)
    then show ?thesis
      by (simp add: parse_property_def)
  qed
  then have "map (\<lambda>e. parse_property q (fst e)) (enumerated q)
      = map (\<lambda>e. parseFloat (snd e)) (enumerated q)"
    by simp
  then show ?thesis
    unfolding request_params_def keys_of_enumerated[symmetric] by (simp add: comp_def)
qed

lemma enumerated_no_index:
  "list_all (\<lambda>e. \<not> isArrayIndex (fst e)) q \<Longrightarrow> enumerated q = q"
proof -
  assume a: "list_all (\<lambda>e. \<not> isArrayIndex (fst e)) q"
  then have "filter (\<lambda>e. isArrayIndex (fst e)) q = []"
    by (simp add: list_all_iff filter_empty_conv)
  moreover from a have "filter (\<lambda>e. \<not> isArrayIndex (fst e)) q = q"
    by (simp add: list_all_iff)
  ultimately show ?thesis
    by (simp add: enumerated_def)
qed

lemma arg_extra:
  "i < length ds \<Longrightarrow> length ds \<le> length ps \<Longrightarrow> arg (ps @ extra) i d = arg ps i d"
  by (simp add: arg_def nth_append)

lemma arg_fill:
  assumes "i < length ds"
  shows "arg (ps @ drop (length ps) ds) i (ds ! i) = arg ps i (ds ! i)"
proof (cases "i < length ps")
  case True
  then show ?thesis
    by (simp add: arg_def nth_append)
next
  case False
  with assms have "(ps @ drop (length ps) ds) ! i = ds ! i"
    by (simp add: nth_append)
  with False show ?thesis
    by (simp add: arg_def)
qed

lemma pdf_depends:
  assumes "\<And>i. i < length (pdf_defaults k)
    \<Longrightarrow> arg ps i (pdf_defaults k ! i) = arg ps' i (pdf_defaults k ! i)"
  shows "pdf k x ps = pdf k x ps'"
  using assms[of 0] assms[of 1] by (cases k) (simp_all del: Math_pow.simps)

lemma mean_depends:
  assumes "\<And>i. i < length (mean_defaults k)
    \<Longrightarrow> arg ps i (mean_defaults k ! i) = arg ps' i (mean_defaults k ! i)"
  shows "dist_mean k ps = dist_mean k ps'"
  using assms[of 0] assms[of 1] by (cases k) simp_all

lemma variance_depends:
  assumes "\<And>i. i < length (variance_defaults k)
    \<Longrightarrow> arg ps i (variance_defaults k ! i) = arg ps' i (variance_defaults k ! i)"
  shows "dist_variance k ps = dist_variance k ps'"
  using assms[of 0] assms[of 1] by (cases k) (simp_all del: Math_pow.simps)

lemma pdf_extra:
  "length (pdf_defaults k) \<le> length ps \<Longrightarrow> pdf k x (ps @ extra) = pdf k x ps"
  by (rule pdf_depends) (rule arg_extra)

lemma mean_extra:
  "length (mean_defaults k) \<le> length ps \<Longrightarrow> dist_mean k (ps @ extra) = dist_mean k ps"
  by (rule mean_depends) (rule arg_extra)

lemma variance_extra:
  "length (variance_defaults k) \<le> length ps
   \<Longrightarrow> dist_variance k (ps @ extra) = dist_variance k ps"
  by (rule variance_depends) (rule arg_extra)

lemma pdf_missing: "pdf k x ps = pdf k x (ps @ drop (length ps) (pdf_defaults k))"
  by (rule pdf_depends) (simp add: arg_fill)

lemma mean_missing: "dist_mean k ps = dist_mean k (ps @ drop (length ps) (mean_defaults k))"
  by (rule mean_depends) (simp add: arg_fill)

lemma variance_missing:
  "dist_variance k ps = dist_variance k (ps @ drop (length ps) (variance_defaults k))"
  by (rule variance_depends) (simp add: arg_fill)

text \<open>
  Claim C7, as amended. The list passed to the descriptor's density, mean and variance
  functions is the list of the query values parsed by \<open>parseFloat\<close>, bound by position in
  the order \<open>Object.keys\<close> enumerates the query object: the values under array-index keys
  first, by ascending index, then the other values in the order their keys appear. Among
  keys that are not array indices the order is the order of appearance and the names play
  no part. A formal parameter with no argument takes the default its function declares
  (all of them when the query is empty), and arguments beyond a function's formal
  parameters are ignored.
\<close>

theorem C7_parameters_are_bound_by_position:
  "(handler type q = Inr (Status200 r)
      \<longrightarrow> (\<exists>k. distributions type = Descriptor k
            \<and> array_map (\<lambda>x. pdf k x (request_params q)) (xValues r) = Inr (pdfValues r)
            \<and> mean (stats r) = dist_mean k (request_params q)
            \<and> variance (stats r) = dist_variance k (request_params q)))
   \<and> (distinct (map fst q)
      \<longrightarrow> request_params q = map (\<lambda>e. parseFloat (snd e)) (enumerated q))
   \<and> (list_all (\<lambda>e. \<not> isArrayIndex (fst e)) q \<longrightarrow> enumerated q = q)
   \<and> pdf k x ps = pdf k x (ps @ drop (length ps) (pdf_defaults k))
   \<and> dist_mean k ps = dist_mean k (ps @ drop (length ps) (mean_defaults k))
   \<and> dist_variance k ps = dist_variance k (ps @ drop (length ps) (variance_defaults k))
   \<and> (length (pdf_defaults k) \<le> length ps \<longrightarrow> pdf k x (ps @ extra) = pdf k x ps)
   \<and> (length (mean_defaults k) \<le> length ps \<longrightarrow> dist_mean k (ps @ extra) = dist_mean k ps)
   \<and> (length (variance_defaults k) \<le> length ps
      \<longrightarrow> dist_variance k (ps @ extra) = dist_variance k ps)"
proof -
  have "\<exists>k. distributions type = Descriptor k
      \<and> array_map (\<lambda>x. pdf k x (request_params q)) (xValues r) = Inr (pdfValues r)
      \<and> mean (stats r) = dist_mean k (request_params q)
      \<and> variance (stats r) = dist_variance k (request_params q)"
    if "handler type q = Inr (Status200 r)"
    using handler_payload[OF that] by auto
  then show ?thesis
    using request_params_enumerated[of q] enumerated_no_index[of q]
      pdf_missing[of k x ps] mean_missing[of k ps] variance_missing[of k ps]
      pdf_extra[of k ps x extra] mean_extra[of k ps extra] variance_extra[of k ps extra]
    by blast
qed

lemma parse_3: "parseFloat ''3'' = Fin 3"
  by (simp add: parseFloat_def unsigned_literal_def isDigit_def isWhiteSpace_def
      digits_value_def exponent_part_def)

lemma parse_2: "parseFloat ''2'' = Fin 2"
  by (simp add: parseFloat_def unsigned_literal_def isDigit_def isWhiteSpace_def
      digits_value_def exponent_part_def)

lemma not_index_mu_sigma: "\<not> isArrayIndex ''mu''" "\<not> isArrayIndex ''sigma''"
  by (simp_all add: isArrayIndex_def isDigit_def)

theorem C7_witness:
  "\<exists>r. handler ''normal'' [(''mu'', ''3''), (''sigma'', ''2'')] = Inr (Status200 r)
     \<and> distinct (map fst [(''mu'', ''3''), (''sigma'', ''2'')])
     \<and> list_all (\<lambda>e. \<not> isArrayIndex (fst e)) [(''mu'', ''3''), (''sigma'', ''2'')]
     \<and> request_params [(''mu'', ''3''), (''sigma'', ''2'')] = [Fin 3, Fin 2]
     \<and> array_map (\<lambda>x. pdf Normal x [Fin 3, Fin 2]) (xValues r) = Inr (pdfValues r)
     \<and> mean (stats r) = dist_mean Normal [Fin 3, Fin 2]
     \<and> variance (stats r) = dist_variance Normal [Fin 3, Fin 2]
     \<and> length (pdf_defaults Normal) \<le> length [Fin 3, Fin 2]
     \<and> pdf Normal (Fin 0) ([Fin 3, Fin 2] @ [Fin 9]) = pdf Normal (Fin 0) [Fin 3, Fin 2]
     \<and> pdf Normal (Fin 0) [] = pdf Normal (Fin 0) [Fin 0, Fin 1]"
proof -
  let ?q = "[(''mu'', ''3''), (''sigma'', ''2'')]"
  obtain r where r: "handler ''normal'' ?q = Inr (Status200 r)"
    using handler_replies[OF distributions_normal] by blast
  have d: "distinct (map fst ?q)"
    by simp
  have n: "list_all (\<lambda>e. \<not> isArrayIndex (fst e)) ?q"
    by (simp add: not_index_mu_sigma)
  have l: "length (pdf_defaults Normal) \<le> length [Fin 3, Fin 2]"
    by simp
  note c7 = C7_parameters_are_bound_by_position[of "''normal''" ?q r Normal "Fin 0" _ "[Fin 9]"]
  note answered = c7[of "[]", THEN conjunct1, THEN mp, OF r]
  note ordered = c7[of "[]", THEN conjunct2, THEN conjunct1, THEN mp, OF d]
  note appearance = c7[of "[]", THEN conjunct2, THEN conjunct2, THEN conjunct1, THEN mp, OF n]
  note defaults = c7[of "[]", THEN conjunct2, THEN conjunct2, THEN conjunct2, THEN conjunct1]
  note extras = c7[of "[Fin 3, Fin 2]", THEN conjunct2, THEN conjunct2, THEN conjunct2,
      THEN conjunct2, THEN conjunct2, THEN conjunct2, THEN conjunct1, THEN mp, OF l]
  have ps: "request_params ?q = [Fin 3, Fin 2]"
    unfolding ordered appearance by (simp add: parse_3 parse_2)
  from answered obtain k where k: "distributions ''normal'' = Descriptor k"
    and m: "array_map (\<lambda>x. pdf k x (request_params ?q)) (xValues r) = Inr (pdfValues r)"
    and st: "mean (stats r) = dist_mean k (request_params ?q)"
      "variance (stats r) = dist_variance k (request_params ?q)"
    by blast
  from k have kn: "k = Normal"
    by (simp add: distributions_normal)
  have f: "pdf Normal (Fin 0) [] = pdf Normal (Fin 0) [Fin 0, Fin 1]"
    using defaults by (simp del: pdf.simps)
  from m st have m': "array_map (\<lambda>x. pdf Normal x [Fin 3, Fin 2]) (xValues r) = Inr (pdfValues r)"
    and st': "mean (stats r) = dist_mean Normal [Fin 3, Fin 2]"
      "variance (stats r) = dist_variance Normal [Fin 3, Fin 2]"
    unfolding kn ps by blast+
  have "handler ''normal'' ?q = Inr (Status200 r)
     \<and> distinct (map fst ?q)
     \<and> list_all (\<lambda>e. \<not> isArrayIndex (fst e)) ?q
     \<and> request_params ?q = [Fin 3, Fin 2]
     \<and> array_map (\<lambda>x. pdf Normal x [Fin 3, Fin 2]) (xValues r) = Inr (pdfValues r)
     \<and> mean (stats r) = dist_mean Normal [Fin 3, Fin 2]
     \<and> variance (stats r) = dist_variance Normal [Fin 3, Fin 2]
     \<and> length (pdf_defaults Normal) \<le> length [Fin 3, Fin 2]
     \<and> pdf Normal (Fin 0) ([Fin 3, Fin 2] @ [Fin 9]) = pdf Normal (Fin 0) [Fin 3, Fin 2]
     \<and> pdf Normal (Fin 0) [] = pdf Normal (Fin 0) [Fin 0, Fin 1]"
    by (intro conjI r d n ps m' st' l extras f)
  then show ?thesis
    by (rule exI)
qed

lemma parse_5: "parseFloat ''5'' = Fin 5"
  by (simp add: parseFloat_def unsigned_literal_def isDigit_def isWhiteSpace_def
      digits_value_def exponent_part_def)

lemma parse_7: "parseFloat ''7'' = Fin 7"
  by (simp add: parseFloat_def unsigned_literal_def isDigit_def isWhiteSpace_def
      digits_value_def exponent_part_def)

text \<open>
  Claim C7 as stated binds the values in the order their keys appear in the query. For
  the query \<open>?2=5&1=7\<close> the keys appear as \<open>2\<close>, \<open>1\<close> and the values as 5, 7, but the
  parameters passed are 7, 5.
\<close>

theorem C7_integer_keys_are_reordered:
  "request_params [(''2'', ''5''), (''1'', ''7'')] = [Fin 7, Fin 5]
   \<and> map parseFloat [''5'', ''7''] = [Fin 5, Fin 7]"
  by (simp add: request_params_def object_keys_def isArrayIndex_def isDigit_def digits_value_def
      parse_property_def parse_5 parse_7)

end
